theory Spec2Isabelle
  imports Complex_Main "HOL-Library.Sublist"
begin

section \<open>BankSim: the simulation orchestrator of banksim/model.py\<close>

text \<open>
  The theory embeds the class \<^verbatim>\<open>BankSim\<close> of \<^verbatim>\<open>src/banksim/model.py\<close>:
  \<^verbatim>\<open>init_database\<close>, \<^verbatim>\<open>__init__\<close>, \<^verbatim>\<open>step\<close> and \<^verbatim>\<open>run_model\<close>.
  A method that mutates its object and the process around it is a function from the
  state before to an optional exception and the state after; an exception leaves the
  mutations made before it in place, as in Python.
\<close>

subsection \<open>Exceptions and statements\<close>

datatype exn =
    PyException string          \<comment> \<open>\<^verbatim>\<open>Exception(msg)\<close>\<close>
  | IndexError                  \<comment> \<open>\<^verbatim>\<open>random.choice\<close> of an empty sequence\<close>
  | KeyError nat                \<comment> \<open>\<^verbatim>\<open>G.nodes[node_id]\<close> of a node that is not in the graph\<close>
  | UnboundLocalError string    \<comment> \<open>a local variable read before its assignment\<close>
  | AttributeError string       \<comment> \<open>an attribute of \<^verbatim>\<open>None\<close>\<close>
  | ValueError                  \<comment> \<open>\<^verbatim>\<open>int(s)\<close> of a string that is not a number\<close>
  | Fault string                \<comment> \<open>an error raised inside a callee that is not part of model.py\<close>

type_synonym 's stmt = "'s \<Rightarrow> exn option \<times> 's"

text \<open>A block of statements runs them in order and stops at the first one that raises.\<close>

fun run_all :: "'s stmt list \<Rightarrow> 's stmt" where
  "run_all [] s = (None, s)"
| "run_all (c # cs) s =
     (case c s of (None, s') \<Rightarrow> run_all cs s' | (Some e, s') \<Rightarrow> (Some e, s'))"

text \<open>\<^verbatim>\<open>for x in xs: body\<close>, without \<^verbatim>\<open>break\<close>.\<close>

fun for_each :: "('a \<Rightarrow> 's stmt) \<Rightarrow> 'a list \<Rightarrow> 's stmt" where
  "for_each body [] s = (None, s)"
| "for_each body (x # xs) s =
     (case body x s of (None, s') \<Rightarrow> for_each body xs s' | (Some e, s') \<Rightarrow> (Some e, s'))"

subsection \<open>The process around the model\<close>

record datetime =
  year :: nat
  month :: nat
  day :: nat
  hour :: nat
  minute :: nat
  second :: nat

text \<open>
  The calls that leave model.py, in the order they are made. The stages of the banking
  pipeline, the result writers and the persistence helpers are functions of the
  repository that model.py imports; sqlite3, the file system and the scheduler are
  libraries.
\<close>

datatype call =
    Isfile string
  | Sqlite3_connect string
  | Conn_cursor nat
  | Open_file string
  | Executescript nat string
  | Conn_commit nat
  | Cursor_close nat
  | Conn_close nat
  | Insert_simulation_table nat int string datetime
  | Insert_agtbank_table "nat option" "int option" nat "nat list"
  | Initialize_deposit_base
  | Initialize_loan_book
  | Main_evaluate_solvency
  | Main_second_round_effects
  | Main_risk_weight_optimization
  | Main_pay_dividends
  | Main_reset_insolvent_loans
  | Main_build_loan_book_locally
  | Main_build_loan_book_globally
  | Main_evaluate_liquidity
  | Main_write_bank_ratios
  | Main_write_interbank_links
  | Schedule_step
  | Datacollector_collect

text \<open>
  \<open>'r\<close> is the type of the records held by the two result lists. The lists are
  attributes of the class \<^verbatim>\<open>BankSim\<close> (lines 57-58), not of an instance, so they live
  here, in the process, with the database, the log and the clock.
\<close>

record 'r world =
  trace :: "call list"                 \<comment> \<open>the calls made so far\<close>
  log :: "string list"                 \<comment> \<open>the lines written by \<^verbatim>\<open>logger.info\<close>\<close>
  stdout :: "string list"              \<comment> \<open>the lines written by \<^verbatim>\<open>print\<close>\<close>
  step_calls :: nat                    \<comment> \<open>how many times \<^verbatim>\<open>step()\<close> was entered\<close>
  db_file_exists :: bool               \<comment> \<open>\<^verbatim>\<open>os.path.isfile(sqlite_db)\<close>\<close>
  live_conns :: "nat list"             \<comment> \<open>connections opened and not closed\<close>
  live_cursors :: "nat list"           \<comment> \<open>cursors opened and not closed\<close>
  tbl_simulation :: "(int \<times> string \<times> datetime) list"   \<comment> \<open>rows of the run-record table\<close>
  clock_reads :: nat                   \<comment> \<open>how many times the clock was read\<close>
  rng_draws :: nat                     \<comment> \<open>how many times \<^verbatim>\<open>random.choice\<close> drew\<close>
  lst_bank_ratio :: "'r list"          \<comment> \<open>\<^verbatim>\<open>BankSim.lst_bank_ratio\<close>\<close>
  lst_ibloan :: "'r list"              \<comment> \<open>\<^verbatim>\<open>BankSim.lst_ibloan\<close>\<close>

text \<open>A handle that no live handle uses.\<close>

definition fresh_handle :: "nat list \<Rightarrow> nat" where
  "fresh_handle hs = Suc (fold max hs 0)"

subsection \<open>Agents, the scheduler and the network\<close>

text \<open>
  The classes \<^verbatim>\<open>Bank\<close>, \<^verbatim>\<open>Saver\<close> and \<^verbatim>\<open>Loan\<close> are imported; model.py reads
  \<^verbatim>\<open>unique_id\<close>, \<^verbatim>\<open>pos\<close> (set by \<^verbatim>\<open>place_agent\<close>), \<^verbatim>\<open>bank_solvent\<close>,
  \<^verbatim>\<open>total_assets\<close> and \<^verbatim>\<open>bank_id\<close>. Whatever else an agent holds is \<open>attrs\<close>, of a
  type \<open>'x\<close> that this file does not look into. Floats are idealised as reals.
\<close>

datatype 'x agent =
    is_Bank: Bank (unique_id: nat) (pos: "nat option") (bank_solvent: bool)
                  (total_assets: real) (attrs: 'x)
  | is_Saver: Saver (unique_id: nat) (pos: "nat option") (attrs: 'x)
  | is_Loan: Loan (unique_id: nat) (pos: "nat option") (bank_id: "nat option") (attrs: 'x)

fun set_pos :: "nat \<Rightarrow> 'x agent \<Rightarrow> 'x agent" where
  "set_pos n (Bank u p s t x) = Bank u (Some n) s t x"
| "set_pos n (Saver u p x) = Saver u (Some n) x"
| "set_pos n (Loan u p b x) = Loan u (Some n) b x"

text \<open>\<^verbatim>\<open>isinstance(x, Bank) and x.bank_solvent\<close>\<close>

fun solvent_bank :: "'x agent \<Rightarrow> bool" where
  "solvent_bank (Bank u p s t x) = s"
| "solvent_bank (Saver u p x) = False"
| "solvent_bank (Loan u p b x) = False"

text \<open>
  \<^verbatim>\<open>RandomActivation\<close>: the step counter and the agents in the order they were added.
\<close>

record 'x schedule =
  steps :: nat
  agents :: "'x agent list"

definition schedule_add :: "'x agent \<Rightarrow> 'x schedule \<Rightarrow> 'x schedule" where
  "schedule_add a s = s\<lparr>agents := agents s @ [a]\<rparr>"

text \<open>
  The networkx graph that \<^verbatim>\<open>NetworkGrid\<close> wraps: each node with the list
  \<^verbatim>\<open>G.nodes[n]["agent"]\<close> of the agents placed on it (by their \<^verbatim>\<open>unique_id\<close>), and
  the edges.
\<close>

record graph =
  nodes :: "(nat \<times> nat list) list"
  edges :: "(nat \<times> nat) list"

text \<open>
  \<^verbatim>\<open>nx.empty_graph(n)\<close> has the nodes \<^verbatim>\<open>range(n)\<close> and no edge;
  \<^verbatim>\<open>NetworkGrid(G)\<close> gives every node an empty list of agents.
\<close>

definition empty_graph :: "int \<Rightarrow> graph" where
  "empty_graph n = \<lparr>nodes = map (\<lambda>i. (i, [])) [0..<nat n], edges = []\<rparr>"

text \<open>
  \<^verbatim>\<open>grid.place_agent(agent, node_id)\<close>:
  \<^verbatim>\<open>G.nodes[node_id]["agent"].append(agent); agent.pos = node_id\<close>
\<close>

definition place_agent :: "'x agent \<Rightarrow> nat \<Rightarrow> graph \<Rightarrow> exn + ('x agent \<times> graph)" where
  "place_agent a n g =
     (if n \<in> fst ` set (nodes g)
      then Inr (set_pos n a,
                g\<lparr>nodes := map (\<lambda>(k, ids). if k = n then (k, ids @ [unique_id a]) else (k, ids))
                                (nodes g)\<rparr>)
      else Inl (KeyError n))"

text \<open>\<^verbatim>\<open>random.choice(seq)\<close> with the number \<open>r\<close> drawn.\<close>

definition random_choice :: "nat \<Rightarrow> 'a list \<Rightarrow> exn + 'a" where
  "random_choice r xs = (if xs = [] then Inl IndexError else Inr (xs ! (r mod length xs)))"

subsection \<open>The settings and the behaviour of what model.py calls\<close>

text \<open>
  \<open>io_fault\<close> decides, from the calls made so far, whether a call into sqlite3, the
  file system or a persistence helper raises. \<^verbatim>\<open>Connection.cursor\<close> and the two
  \<^verbatim>\<open>close\<close> methods are not asked: on a handle that is open they do not raise.

  The functions that model.py imports from the rest of the repository are fields of the
  same record, under their own names and with the arguments model.py passes. A stage
  returns the agents as it leaves them, also when it raises. \<open>'d\<close> is the type of a
  tabular dataset.
\<close>

record ('x, 'r, 'd) env =
  sqlite_db :: string                               \<comment> \<open>\<^verbatim>\<open>config['SQLITEDB']['file']\<close>\<close>
  db_init_query :: string                           \<comment> \<open>\<^verbatim>\<open>config['SQLITEDB']['init_query']\<close>\<close>
  io_fault :: "call list \<Rightarrow> call \<Rightarrow> exn option"
  file_text :: "string \<Rightarrow> string"                   \<comment> \<open>what \<^verbatim>\<open>fin.read()\<close> returns\<close>
  now_local :: "nat \<Rightarrow> datetime"                    \<comment> \<open>\<^verbatim>\<open>datetime.now()\<close> at the k-th reading\<close>
  now_utc :: "nat \<Rightarrow> datetime"                      \<comment> \<open>\<^verbatim>\<open>datetime.now(timezone.utc)\<close>, likewise\<close>
  rand :: "nat \<Rightarrow> nat"                              \<comment> \<open>the k-th number drawn by \<^verbatim>\<open>random\<close>\<close>
  Bank_new :: "nat \<Rightarrow> real \<Rightarrow> real \<Rightarrow> real \<Rightarrow> bool \<times> real \<times> 'x"
      \<comment> \<open>\<^verbatim>\<open>Bank(id, model, rfree, car, equity)\<close>: its solvency flag, total assets, the rest\<close>
  Saver_new :: "nat \<Rightarrow> 'x"
  Loan_new :: "nat \<Rightarrow> real \<Rightarrow> 'x"
  initialize_deposit_base :: "'x schedule \<Rightarrow> exn option \<times> 'x agent list"
  initialize_loan_book :: "'x schedule \<Rightarrow> real \<Rightarrow> real \<Rightarrow> exn option \<times> 'x agent list"
  main_evaluate_solvency ::
    "'x schedule \<Rightarrow> real \<Rightarrow> int \<Rightarrow> real \<Rightarrow> exn option \<times> 'x agent list"
  main_second_round_effects ::
    "'x schedule \<Rightarrow> int \<Rightarrow> real \<Rightarrow> graph \<Rightarrow> exn option \<times> 'x agent list \<times> graph"
  main_risk_weight_optimization :: "'x schedule \<Rightarrow> real \<Rightarrow> exn option \<times> 'x agent list"
  main_pay_dividends :: "'x schedule \<Rightarrow> real \<Rightarrow> real \<Rightarrow> exn option \<times> 'x agent list"
  main_reset_insolvent_loans :: "'x schedule \<Rightarrow> exn option \<times> 'x agent list"
  main_build_loan_book_locally ::
    "'x schedule \<Rightarrow> real \<Rightarrow> real \<Rightarrow> exn option \<times> 'x agent list"
  main_build_loan_book_globally ::
    "'x schedule \<Rightarrow> real \<Rightarrow> real \<Rightarrow> exn option \<times> 'x agent list"
  main_evaluate_liquidity ::
    "'x schedule \<Rightarrow> real \<Rightarrow> real \<Rightarrow> int \<Rightarrow> exn option \<times> 'x agent list"
  main_write_bank_ratios ::
    "'x schedule \<Rightarrow> 'r list \<Rightarrow> real \<Rightarrow> real \<Rightarrow> exn option \<times> 'r list"
  main_write_interbank_links :: "'x schedule \<Rightarrow> 'r list \<Rightarrow> exn option \<times> 'r list"
  agents_step :: "'x agent list \<Rightarrow> exn option \<times> 'x agent list"
  convert_result2dataframe :: "'r list \<Rightarrow> 'r list \<Rightarrow> exn + ('d \<times> 'd)"

definition record_call :: "call \<Rightarrow> 'r world \<Rightarrow> 'r world" where
  "record_call c w = w\<lparr>trace := trace w @ [c]\<rparr>"

subsection \<open>init_database (lines 60-71)\<close>

text \<open>The two local variables of \<^verbatim>\<open>init_database\<close>; \<open>None\<close> is "not yet assigned".\<close>

record locals =
  l_conn :: "nat option"
  l_db_cursor :: "nat option"

text \<open>\<^verbatim>\<open>conn = sqlite3.connect(self.sqlite_db)\<close>\<close>

definition idb_connect :: "('x, 'r, 'd) env \<Rightarrow> (locals \<times> 'r world) stmt" where
  "idb_connect d = (\<lambda>(l, w).
     let c = Sqlite3_connect (sqlite_db d); w1 = record_call c w in
     case io_fault d (trace w) c of
       Some e \<Rightarrow> (Some e, (l, w1))
     | None \<Rightarrow>
         let h = fresh_handle (live_conns w1) in
         (None, (l\<lparr>l_conn := Some h\<rparr>,
                 w1\<lparr>live_conns := live_conns w1 @ [h], db_file_exists := True\<rparr>)))"

text \<open>\<^verbatim>\<open>db_cursor = conn.cursor()\<close>\<close>

definition idb_cursor :: "(locals \<times> 'r world) stmt" where
  "idb_cursor = (\<lambda>(l, w).
     case l_conn l of
       None \<Rightarrow> (Some (UnboundLocalError ''conn''), (l, w))
     | Some h \<Rightarrow>
         let k = fresh_handle (live_cursors w) in
         (None, (l\<lparr>l_db_cursor := Some k\<rparr>,
                 (record_call (Conn_cursor h) w)\<lparr>live_cursors := live_cursors w @ [k]\<rparr>)))"

text \<open>
  \<^verbatim>\<open>fin = open(self.db_init_query, 'r')\<close> and
  \<^verbatim>\<open>db_cursor.executescript(fin.read())\<close>
\<close>

definition idb_open :: "('x, 'r, 'd) env \<Rightarrow> (locals \<times> 'r world) stmt" where
  "idb_open d = (\<lambda>(l, w).
     let c = Open_file (db_init_query d) in
     (io_fault d (trace w) c, (l, record_call c w)))"

definition idb_executescript :: "('x, 'r, 'd) env \<Rightarrow> (locals \<times> 'r world) stmt" where
  "idb_executescript d = (\<lambda>(l, w).
     case l_db_cursor l of
       None \<Rightarrow> (Some (UnboundLocalError ''db_cursor''), (l, w))
     | Some k \<Rightarrow>
         let c = Executescript k (file_text d (db_init_query d)) in
         (io_fault d (trace w) c, (l, record_call c w)))"

text \<open>\<^verbatim>\<open>conn.commit()\<close>\<close>

definition idb_commit :: "('x, 'r, 'd) env \<Rightarrow> (locals \<times> 'r world) stmt" where
  "idb_commit d = (\<lambda>(l, w).
     case l_conn l of
       None \<Rightarrow> (Some (UnboundLocalError ''conn''), (l, w))
     | Some h \<Rightarrow>
         let c = Conn_commit h in
         (io_fault d (trace w) c, (l, record_call c w)))"

text \<open>The \<^verbatim>\<open>finally\<close> block: \<^verbatim>\<open>db_cursor.close()\<close>, then \<^verbatim>\<open>conn.close()\<close>.\<close>

definition idb_cursor_close :: "(locals \<times> 'r world) stmt" where
  "idb_cursor_close = (\<lambda>(l, w).
     case l_db_cursor l of
       None \<Rightarrow> (Some (UnboundLocalError ''db_cursor''), (l, w))
     | Some k \<Rightarrow>
         (None, (l, (record_call (Cursor_close k) w)\<lparr>live_cursors := remove1 k (live_cursors w)\<rparr>)))"

definition idb_conn_close :: "(locals \<times> 'r world) stmt" where
  "idb_conn_close = (\<lambda>(l, w).
     case l_conn l of
       None \<Rightarrow> (Some (UnboundLocalError ''conn''), (l, w))
     | Some h \<Rightarrow>
         (None, (l, (record_call (Conn_close h) w)\<lparr>live_conns := remove1 h (live_conns w)\<rparr>)))"

text \<open>
  \<^verbatim>\<open>try: ... except: raise Exception("SQLite DB init error") finally: ...\<close>
  An exception of the \<^verbatim>\<open>finally\<close> block replaces the one that was pending.
\<close>

definition init_database :: "('x, 'r, 'd) env \<Rightarrow> 'r world \<Rightarrow> exn option \<times> 'r world" where
  "init_database d w =
     (let (r, s1) = run_all [idb_connect d, idb_cursor, idb_open d, idb_executescript d,
                             idb_commit d]
                            (\<lparr>l_conn = None, l_db_cursor = None\<rparr>, w);
          pending = (case r of None \<Rightarrow> None
                     | Some e \<Rightarrow> Some (PyException ''SQLite DB init error''));
          (rf, (l2, w2)) = run_all [idb_cursor_close, idb_conn_close] s1
      in (case rf of Some e \<Rightarrow> Some e | None \<Rightarrow> pending, w2))"

subsection \<open>The model object\<close>

record 'x model =
  height :: int
  width :: int
  initial_saver :: int
  initial_loan :: int
  initial_bank :: int
  rfree :: real
  reserve_rates :: real
  libor_rate :: real
  bankrupt_liquidation :: int
  car :: real
  min_reserves_ratio :: real
  initial_equity :: real
  G :: graph                        \<comment> \<open>\<^verbatim>\<open>self.G\<close>, which \<^verbatim>\<open>self.grid\<close> wraps\<close>
  schedule :: "'x schedule"
  datacollector :: "real list"      \<comment> \<open>the values collected for "BankAsset"\<close>
  conn :: "nat option"
  db_cursor :: "nat option"
  simid :: "int option"
  running :: bool
  current_id :: nat                 \<comment> \<open>the counter behind \<^verbatim>\<open>next_id()\<close>\<close>

text \<open>The arguments of \<^verbatim>\<open>BankSim(...)\<close> and their defaults (lines 74-75).\<close>

record args =
  arg_height :: int
  arg_width :: int
  arg_initial_saver :: int
  arg_initial_loan :: int
  arg_initial_bank :: int
  arg_rfree :: real
  arg_car :: real
  arg_min_reserves_ratio :: real
  arg_initial_equity :: real

definition default_args :: args where
  "default_args = \<lparr>arg_height = 20, arg_width = 20, arg_initial_saver = 10000,
     arg_initial_loan = 20000, arg_initial_bank = 10, arg_rfree = 0.01, arg_car = 0.08,
     arg_min_reserves_ratio = 0.03, arg_initial_equity = 100\<rparr>"

text \<open>\<^verbatim>\<open>get_sum_totasset\<close> (lines 36-37)\<close>

definition get_sum_totasset :: "'x model \<Rightarrow> real" where
  "get_sum_totasset m = sum_list (map total_assets (filter is_Bank (agents (schedule m))))"

text \<open>A call of an imported function that is handed \<^verbatim>\<open>self.schedule\<close>.\<close>

definition call_stage ::
  "call \<Rightarrow> ('x schedule \<Rightarrow> exn option \<times> 'x agent list) \<Rightarrow> ('x model \<times> 'r world) stmt" where
  "call_stage c f = (\<lambda>(m, w).
     let (r, ags) = f (schedule m) in
     (r, (m\<lparr>schedule := (schedule m)\<lparr>agents := ags\<rparr>\<rparr>, record_call c w)))"

text \<open>\<^verbatim>\<open>self.datacollector.collect(self)\<close>\<close>

definition collect :: "('x model \<times> 'r world) stmt" where
  "collect = (\<lambda>(m, w).
     (None, (m\<lparr>datacollector := datacollector m @ [get_sum_totasset m]\<rparr>,
             record_call Datacollector_collect w)))"

subsection \<open>__init__ (lines 74-121)\<close>

text \<open>
  Lines 76-94. \<^verbatim>\<open>Model.__init__\<close> sets \<^verbatim>\<open>running\<close> and the id counter; the attributes
  \<^verbatim>\<open>conn\<close>, \<^verbatim>\<open>db_cursor\<close> and \<^verbatim>\<open>simid\<close> are \<^verbatim>\<open>None\<close> in the class.
\<close>

definition new_model :: "args \<Rightarrow> 'x model" where
  "new_model a =
     \<lparr>height = arg_height a, width = arg_width a, initial_saver = arg_initial_saver a,
      initial_loan = arg_initial_loan a, initial_bank = arg_initial_bank a,
      rfree = arg_rfree a, reserve_rates = arg_rfree a / 2, libor_rate = arg_rfree a,
      bankrupt_liquidation = 1, car = arg_car a,
      min_reserves_ratio = arg_min_reserves_ratio a, initial_equity = arg_initial_equity a,
      G = empty_graph (arg_initial_bank a), schedule = \<lparr>steps = 0, agents = []\<rparr>,
      datacollector = [], conn = None, db_cursor = None, simid = None, running = True,
      current_id = 0\<rparr>"

text \<open>
  \<^verbatim>\<open>if not os.path.isfile(self.sqlite_db): self.init_database(); logger.info(...)\<close>
\<close>

definition init_db_if_missing :: "('x, 'r, 'd) env \<Rightarrow> ('x model \<times> 'r world) stmt" where
  "init_db_if_missing d = (\<lambda>(m, w).
     let w1 = record_call (Isfile (sqlite_db d)) w in
     if db_file_exists w then (None, (m, w1))
     else (case init_database d w1 of
             (Some e, w2) \<Rightarrow> (Some e, (m, w2))
           | (None, w2) \<Rightarrow> (None, (m, w2\<lparr>log := log w2 @ [''db initialization'']\<rparr>))))"

text \<open>The body of the loop of lines 100-103; \<^verbatim>\<open>next_id()\<close> increments, then returns.\<close>

definition add_bank :: "('x, 'r, 'd) env \<Rightarrow> nat \<Rightarrow> ('x model \<times> 'r world) stmt" where
  "add_bank d i = (\<lambda>(m, w).
     let u = current_id m + 1;
         m1 = m\<lparr>current_id := u\<rparr>;
         (s, t, x) = Bank_new d u (rfree m) (car m) (initial_equity m)
     in case place_agent (Bank u None s t x) i (G m1) of
          Inl e \<Rightarrow> (Some e, (m1, w))
        | Inr (bank, g) \<Rightarrow>
            (None, (m1\<lparr>G := g, schedule := schedule_add bank (schedule m1)\<rparr>, w)))"

text \<open>The body of the loop of lines 105-108.\<close>

definition add_saver :: "('x, 'r, 'd) env \<Rightarrow> nat \<Rightarrow> ('x model \<times> 'r world) stmt" where
  "add_saver d i = (\<lambda>(m, w).
     let u = current_id m + 1;
         m1 = m\<lparr>current_id := u\<rparr>
     in case random_choice (rand d (rng_draws w)) (map fst (nodes (G m1))) of
          Inl e \<Rightarrow> (Some e, (m1, w))
        | Inr n \<Rightarrow>
            let w1 = w\<lparr>rng_draws := rng_draws w + 1\<rparr> in
            (case place_agent (Saver u None (Saver_new d u)) n (G m1) of
               Inl e \<Rightarrow> (Some e, (m1, w1))
             | Inr (saver, g) \<Rightarrow>
                 (None, (m1\<lparr>G := g, schedule := schedule_add saver (schedule m1)\<rparr>, w1))))"

text \<open>The body of the loop of lines 110-115.\<close>

definition add_loan :: "('x, 'r, 'd) env \<Rightarrow> nat \<Rightarrow> ('x model \<times> 'r world) stmt" where
  "add_loan d i = (\<lambda>(m, w).
     let u = current_id m + 1;
         m1 = m\<lparr>current_id := u\<rparr>
     in case random_choice (rand d (rng_draws w)) (map fst (nodes (G m1))) of
          Inl e \<Rightarrow> (Some e, (m1, w))
        | Inr n \<Rightarrow>
            let w1 = w\<lparr>rng_draws := rng_draws w + 1\<rparr> in
            (case place_agent (Loan u None (Some n) (Loan_new d u (rfree m))) n (G m1) of
               Inl e \<Rightarrow> (Some e, (m1, w1))
             | Inr (loan, g) \<Rightarrow>
                 (None, (m1\<lparr>G := g, schedule := schedule_add loan (schedule m1)\<rparr>, w1))))"

definition create_banks :: "('x, 'r, 'd) env \<Rightarrow> ('x model \<times> 'r world) stmt" where
  "create_banks d = (\<lambda>(m, w). for_each (add_bank d) [0..<nat (initial_bank m)] (m, w))"

definition create_savers :: "('x, 'r, 'd) env \<Rightarrow> ('x model \<times> 'r world) stmt" where
  "create_savers d = (\<lambda>(m, w). for_each (add_saver d) [0..<nat (initial_saver m)] (m, w))"

definition create_loans :: "('x, 'r, 'd) env \<Rightarrow> ('x model \<times> 'r world) stmt" where
  "create_loans d = (\<lambda>(m, w). for_each (add_loan d) [0..<nat (initial_loan m)] (m, w))"

text \<open>Lines 117-118.\<close>

definition init_deposit_base :: "('x, 'r, 'd) env \<Rightarrow> ('x model \<times> 'r world) stmt" where
  "init_deposit_base d = call_stage Initialize_deposit_base (initialize_deposit_base d)"

definition init_loan_book :: "('x, 'r, 'd) env \<Rightarrow> ('x model \<times> 'r world) stmt" where
  "init_loan_book d = (\<lambda>(m, w).
     call_stage Initialize_loan_book
       (\<lambda>s. initialize_loan_book d s (car m) (min_reserves_ratio m)) (m, w))"

definition set_running :: "('x model \<times> 'r world) stmt" where
  "set_running = (\<lambda>(m, w). (None, (m\<lparr>running := True\<rparr>, w)))"

text \<open>The constructor returns the object, or raises; either way the process has moved on.\<close>

definition BankSim_init ::
  "('x, 'r, 'd) env \<Rightarrow> args \<Rightarrow> 'r world \<Rightarrow> (exn + 'x model) \<times> 'r world" where
  "BankSim_init d a w =
     (case run_all [init_db_if_missing d, create_banks d, create_savers d, create_loans d,
                    init_deposit_base d, init_loan_book d, set_running, collect]
                   (new_model a, w) of
        (None, (m, w')) \<Rightarrow> (Inr m, w')
      | (Some e, (m, w')) \<Rightarrow> (Inl e, w'))"

subsection \<open>Numbers as text\<close>

definition digit_char :: "nat \<Rightarrow> char" where
  "digit_char n = char_of (48 + n)"

fun dec :: "nat \<Rightarrow> string" where
  "dec n = (if n < 10 then [digit_char n] else dec (n div 10) @ [digit_char (n mod 10)])"

declare dec.simps [simp del]

text \<open>The format \<^verbatim>\<open>{:wd}\<close> pads with blanks on the left, \<^verbatim>\<open>%m\<close> and its like with zeros.\<close>

definition pad_left :: "char \<Rightarrow> nat \<Rightarrow> string \<Rightarrow> string" where
  "pad_left c w s = replicate (w - length s) c @ s"

text \<open>
  \<^verbatim>\<open>dt.strftime('%Y%m%d%H%M%S')\<close>; the C library writes the year without padding.
\<close>

definition strftime_YmdHMS :: "datetime \<Rightarrow> string" where
  "strftime_YmdHMS t =
     dec (year t) @ pad_left CHR ''0'' 2 (dec (month t)) @ pad_left CHR ''0'' 2 (dec (day t))
     @ pad_left CHR ''0'' 2 (dec (hour t)) @ pad_left CHR ''0'' 2 (dec (minute t))
     @ pad_left CHR ''0'' 2 (dec (second t))"

definition digit_val :: "char \<Rightarrow> nat option" where
  "digit_val c = (let n = (of_char c :: nat) in
                  if 48 \<le> n \<and> n \<le> 57 then Some (n - 48) else None)"

text \<open>
  \<^verbatim>\<open>int(s)\<close> for a string of decimal digits, which is all that line 127 hands it; for
  any other string the model answers with the \<^verbatim>\<open>ValueError\<close>.
\<close>

definition py_int_step :: "char \<Rightarrow> int option \<Rightarrow> int option" where
  "py_int_step c acc =
     (case acc of None \<Rightarrow> None
      | Some a \<Rightarrow> (case digit_val c of None \<Rightarrow> None | Some v \<Rightarrow> Some (a * 10 + int v)))"

definition py_int :: "string \<Rightarrow> int option" where
  "py_int s = (if s = [] then None else fold py_int_step s (Some 0))"

text \<open>The number that the digits YYYYMMDDhhmmss spell.\<close>

definition timestamp_number :: "datetime \<Rightarrow> int" where
  "timestamp_number t =
     int (year t) * 10000000000 + int (month t) * 100000000 + int (day t) * 1000000
     + int (hour t) * 10000 + int (minute t) * 100 + int (second t)"

text \<open>What the class \<^verbatim>\<open>datetime\<close> guarantees of its fields.\<close>

definition valid_datetime :: "datetime \<Rightarrow> bool" where
  "valid_datetime t \<longleftrightarrow>
     1 \<le> year t \<and> year t \<le> 9999 \<and> 1 \<le> month t \<and> month t \<le> 12 \<and> 1 \<le> day t \<and> day t \<le> 31
     \<and> hour t < 24 \<and> minute t < 60 \<and> second t < 60"

text \<open>\<^verbatim>\<open>traceback.format_exc()\<close> names the exception under the traceback's heading.\<close>

fun exn_text :: "exn \<Rightarrow> string" where
  "exn_text (PyException s) = ''Exception: '' @ s"
| "exn_text IndexError = ''IndexError''"
| "exn_text (KeyError n) = ''KeyError: '' @ dec n"
| "exn_text (UnboundLocalError s) = ''UnboundLocalError: '' @ s"
| "exn_text (AttributeError s) = ''AttributeError: '' @ s"
| "exn_text ValueError = ''ValueError''"
| "exn_text (Fault s) = s"

definition format_exc :: "exn \<Rightarrow> string" where
  "format_exc e = ''Traceback (most recent call last): '' @ exn_text e"

subsection \<open>step (lines 123-166)\<close>

text \<open>Not in the source: counts the entries into \<^verbatim>\<open>step()\<close>.\<close>

definition enter_step :: "('x model \<times> 'r world) stmt" where
  "enter_step = (\<lambda>(m, w). (None, (m, w\<lparr>step_calls := step_calls w + 1\<rparr>)))"

text \<open>Line 125: \<^verbatim>\<open>self.conn = sqlite3.connect(self.sqlite_db)\<close>\<close>

definition st_connect :: "('x, 'r, 'd) env \<Rightarrow> ('x model \<times> 'r world) stmt" where
  "st_connect d = (\<lambda>(m, w).
     let c = Sqlite3_connect (sqlite_db d); w1 = record_call c w in
     case io_fault d (trace w) c of
       Some e \<Rightarrow> (Some e, (m, w1))
     | None \<Rightarrow>
         let h = fresh_handle (live_conns w1) in
         (None, (m\<lparr>conn := Some h\<rparr>,
                 w1\<lparr>live_conns := live_conns w1 @ [h], db_file_exists := True\<rparr>)))"

text \<open>Line 126: \<^verbatim>\<open>self.db_cursor = self.conn.cursor()\<close>\<close>

definition st_cursor :: "('x model \<times> 'r world) stmt" where
  "st_cursor = (\<lambda>(m, w).
     case conn m of
       None \<Rightarrow> (Some (AttributeError ''cursor''), (m, w))
     | Some h \<Rightarrow>
         let k = fresh_handle (live_cursors w) in
         (None, (m\<lparr>db_cursor := Some k\<rparr>,
                 (record_call (Conn_cursor h) w)\<lparr>live_cursors := live_cursors w @ [k]\<rparr>)))"

text \<open>Line 127: \<^verbatim>\<open>self.simid = int(datetime.now().strftime('%Y%m%d%H%M%S'))\<close>\<close>

definition st_simid :: "('x, 'r, 'd) env \<Rightarrow> ('x model \<times> 'r world) stmt" where
  "st_simid d = (\<lambda>(m, w).
     let t = now_local d (clock_reads w); w1 = w\<lparr>clock_reads := clock_reads w + 1\<rparr> in
     case py_int (strftime_YmdHMS t) of
       None \<Rightarrow> (Some ValueError, (m, w1))
     | Some n \<Rightarrow> (None, (m\<lparr>simid := Some n\<rparr>, w1)))"

text \<open>
  Modelled from the spec: \<^verbatim>\<open>insert_simulation_table\<close> (banksim/util/write_sqlitedb.py)
  is not in model.py. It "appends one row to the run-record table" (spec 4.3): the row
  \<^verbatim>\<open>task\<close> that lines 128-129 build and hand it,
  \<^verbatim>\<open>task = (self.simid, 'test', datetime.now(timezone.utc))\<close> and
  \<^verbatim>\<open>insert_simulation_table(self.db_cursor, task)\<close>, unless the call raises. The
  cursor and the id are those that lines 126-127 have just set.
\<close>

definition st_insert_simulation :: "('x, 'r, 'd) env \<Rightarrow> ('x model \<times> 'r world) stmt" where
  "st_insert_simulation d = (\<lambda>(m, w).
     let t = now_utc d (clock_reads w); w1 = w\<lparr>clock_reads := clock_reads w + 1\<rparr> in
     case (db_cursor m, simid m) of
       (Some k, Some n) \<Rightarrow>
         (let c = Insert_simulation_table k n ''test'' t; w2 = record_call c w1 in
          case io_fault d (trace w1) c of
            Some e \<Rightarrow> (Some e, (m, w2))
          | None \<Rightarrow> (None, (m, w2\<lparr>tbl_simulation := tbl_simulation w2 @ [(n, ''test'', t)]\<rparr>)))
     | _ \<Rightarrow> (Some (AttributeError ''execute''), (m, w1)))"

text \<open>Lines 124-129.\<close>

definition first_step_setup :: "('x, 'r, 'd) env \<Rightarrow> ('x model \<times> 'r world) stmt" where
  "first_step_setup d = (\<lambda>(m, w).
     if steps (schedule m) = 0
     then run_all [st_connect d, st_cursor, st_simid d, st_insert_simulation d] (m, w)
     else (None, (m, w)))"

text \<open>Lines 133-156: the stages, each with the arguments of its call.\<close>

definition st_evaluate_solvency :: "('x, 'r, 'd) env \<Rightarrow> ('x model \<times> 'r world) stmt" where
  "st_evaluate_solvency d = (\<lambda>(m, w).
     call_stage Main_evaluate_solvency
       (\<lambda>s. main_evaluate_solvency d s (reserve_rates m) (bankrupt_liquidation m) (car m))
       (m, w))"

definition st_second_round_effects :: "('x, 'r, 'd) env \<Rightarrow> ('x model \<times> 'r world) stmt" where
  "st_second_round_effects d = (\<lambda>(m, w).
     let (r, ags, g) =
           main_second_round_effects d (schedule m) (bankrupt_liquidation m) (car m) (G m)
     in (r, (m\<lparr>schedule := (schedule m)\<lparr>agents := ags\<rparr>, G := g\<rparr>,
             record_call Main_second_round_effects w)))"

definition st_risk_weight_optimization ::
  "('x, 'r, 'd) env \<Rightarrow> ('x model \<times> 'r world) stmt" where
  "st_risk_weight_optimization d = (\<lambda>(m, w).
     call_stage Main_risk_weight_optimization
       (\<lambda>s. main_risk_weight_optimization d s (car m)) (m, w))"

definition st_pay_dividends :: "('x, 'r, 'd) env \<Rightarrow> ('x model \<times> 'r world) stmt" where
  "st_pay_dividends d = (\<lambda>(m, w).
     call_stage Main_pay_dividends
       (\<lambda>s. main_pay_dividends d s (car m) (min_reserves_ratio m)) (m, w))"

definition st_reset_insolvent_loans :: "('x, 'r, 'd) env \<Rightarrow> ('x model \<times> 'r world) stmt" where
  "st_reset_insolvent_loans d =
     call_stage Main_reset_insolvent_loans (main_reset_insolvent_loans d)"

definition st_build_loan_book_locally ::
  "('x, 'r, 'd) env \<Rightarrow> ('x model \<times> 'r world) stmt" where
  "st_build_loan_book_locally d = (\<lambda>(m, w).
     call_stage Main_build_loan_book_locally
       (\<lambda>s. main_build_loan_book_locally d s (min_reserves_ratio m) (car m)) (m, w))"

definition st_build_loan_book_globally ::
  "('x, 'r, 'd) env \<Rightarrow> ('x model \<times> 'r world) stmt" where
  "st_build_loan_book_globally d = (\<lambda>(m, w).
     call_stage Main_build_loan_book_globally
       (\<lambda>s. main_build_loan_book_globally d s (car m) (min_reserves_ratio m)) (m, w))"

definition st_evaluate_liquidity :: "('x, 'r, 'd) env \<Rightarrow> ('x model \<times> 'r world) stmt" where
  "st_evaluate_liquidity d = (\<lambda>(m, w).
     call_stage Main_evaluate_liquidity
       (\<lambda>s. main_evaluate_liquidity d s (car m) (min_reserves_ratio m)
               (bankrupt_liquidation m)) (m, w))"

text \<open>
  Modelled from the spec: \<^verbatim>\<open>main_write_bank_ratios\<close> and
  \<^verbatim>\<open>main_write_interbank_links\<close> (banksim/util/write_agent_activity.py) are not in
  model.py. They "append" records to the list they are handed (spec 4.4): the field of
  the environment returns the records appended, and lines 158-159 make the class-level
  list grow by them.
\<close>

definition st_write_bank_ratios :: "('x, 'r, 'd) env \<Rightarrow> ('x model \<times> 'r world) stmt" where
  "st_write_bank_ratios d = (\<lambda>(m, w).
     let (r, rows) = main_write_bank_ratios d (schedule m) (lst_bank_ratio w) (car m)
                       (min_reserves_ratio m)
     in (r, (m, (record_call Main_write_bank_ratios w)
                  \<lparr>lst_bank_ratio := lst_bank_ratio w @ rows\<rparr>)))"

definition st_write_interbank_links :: "('x, 'r, 'd) env \<Rightarrow> ('x model \<times> 'r world) stmt" where
  "st_write_interbank_links d = (\<lambda>(m, w).
     let (r, rows) = main_write_interbank_links d (schedule m) (lst_ibloan w)
     in (r, (m, (record_call Main_write_interbank_links w)
                  \<lparr>lst_ibloan := lst_ibloan w @ rows\<rparr>)))"

text \<open>
  Line 162: \<^verbatim>\<open>insert_agtbank_table(self.db_cursor, self.simid, self.schedule.steps,
  [x for x in self.schedule.agents if isinstance(x, Bank)])\<close>; the call is recorded with
  its arguments, the agents by their \<^verbatim>\<open>unique_id\<close>.
\<close>

definition st_insert_agtbank :: "('x, 'r, 'd) env \<Rightarrow> ('x model \<times> 'r world) stmt" where
  "st_insert_agtbank d = (\<lambda>(m, w).
     let banks = filter is_Bank (agents (schedule m));
         c = Insert_agtbank_table (db_cursor m) (simid m) (steps (schedule m))
               (map unique_id banks)
     in (io_fault d (trace w) c, (m, record_call c w)))"

text \<open>Line 164: \<^verbatim>\<open>self.conn.commit()\<close>\<close>

definition st_commit :: "('x, 'r, 'd) env \<Rightarrow> ('x model \<times> 'r world) stmt" where
  "st_commit d = (\<lambda>(m, w).
     case conn m of
       None \<Rightarrow> (Some (AttributeError ''commit''), (m, w))
     | Some h \<Rightarrow> (io_fault d (trace w) (Conn_commit h), (m, record_call (Conn_commit h) w)))"

text \<open>
  Line 165: \<^verbatim>\<open>self.schedule.step()\<close> activates every agent, then increments
  \<^verbatim>\<open>steps\<close>; an agent that raises leaves the counter as it was.
\<close>

definition st_schedule_step :: "('x, 'r, 'd) env \<Rightarrow> ('x model \<times> 'r world) stmt" where
  "st_schedule_step d = (\<lambda>(m, w).
     let (r, ags) = agents_step d (agents (schedule m));
         n = (case r of None \<Rightarrow> steps (schedule m) + 1 | Some e \<Rightarrow> steps (schedule m))
     in (r, (m\<lparr>schedule := \<lparr>steps = n, agents = ags\<rparr>\<rparr>, record_call Schedule_step w)))"

text \<open>Lines 133-156: the stages of the pipeline, in the order of the source.\<close>

definition pipeline :: "('x, 'r, 'd) env \<Rightarrow> ('x model \<times> 'r world) stmt list" where
  "pipeline d =
     [st_evaluate_solvency d, st_second_round_effects d, st_risk_weight_optimization d,
      st_pay_dividends d, st_reset_insolvent_loans d, st_build_loan_book_locally d,
      st_build_loan_book_globally d, st_evaluate_liquidity d]"

text \<open>Lines 133-166.\<close>

definition step_body :: "('x, 'r, 'd) env \<Rightarrow> ('x model \<times> 'r world) stmt list" where
  "step_body d =
     pipeline d @
     [st_write_bank_ratios d, st_write_interbank_links d,
      st_insert_agtbank d, st_commit d, st_schedule_step d, collect]"

definition step :: "('x, 'r, 'd) env \<Rightarrow> ('x model \<times> 'r world) stmt" where
  "step d = run_all (enter_step # first_step_setup d # step_body d)"

subsection \<open>run_model (lines 168-186)\<close>

definition solvent_count :: "'x model \<Rightarrow> nat" where
  "solvent_count m = length (filter solvent_bank (agents (schedule m)))"

text \<open>Lines 175-176.\<close>

definition progress :: "int \<Rightarrow> nat \<Rightarrow> 'x model \<times> 'r world \<Rightarrow> 'x model \<times> 'r world" where
  "progress step_count i = (\<lambda>(m, w).
     if i mod 10 = 0 \<or> int i + 1 = step_count
     then (m, w\<lparr>stdout := stdout w @ ['' STEP'' @ pad_left CHR '' '' 1 (dec i)
                   @ '' - # of sovent bank: '' @ pad_left CHR '' '' 2 (dec (solvent_count m))]\<rparr>)
     else (m, w))"

definition log_info :: "string \<Rightarrow> 'x model \<times> 'r world \<Rightarrow> 'x model \<times> 'r world" where
  "log_info s = (\<lambda>(m, w). (m, w\<lparr>log := log w @ [s]\<rparr>))"

text \<open>
  Lines 175-181: the progress line, then \<^verbatim>\<open>step()\<close> under the bare \<^verbatim>\<open>except\<close>,
  which logs the traceback and goes on.
\<close>

definition iteration ::
  "('x, 'r, 'd) env \<Rightarrow> int \<Rightarrow> nat \<Rightarrow> 'x model \<times> 'r world \<Rightarrow> 'x model \<times> 'r world" where
  "iteration d step_count i s =
     (case step d (progress step_count i s) of
        (None, s') \<Rightarrow> s'
      | (Some e, s') \<Rightarrow> log_info (format_exc e) s')"

text \<open>The loop over \<^verbatim>\<open>range(step_count)\<close>, with the \<^verbatim>\<open>break\<close> of lines 182-184.\<close>

fun run_loop ::
  "('x, 'r, 'd) env \<Rightarrow> int \<Rightarrow> nat list \<Rightarrow> 'x model \<times> 'r world \<Rightarrow> 'x model \<times> 'r world" where
  "run_loop d step_count [] s = s"
| "run_loop d step_count (i # is) s =
     (let s' = iteration d step_count i s in
      if solvent_count (fst s') = 0 then log_info ''All banks are bankrupt!'' s'
      else run_loop d step_count is s')"

text \<open>Lines 185-186: what the conversion returns (or raises) is what \<^verbatim>\<open>run_model\<close> does.\<close>

definition run_model ::
  "('x, 'r, 'd) env \<Rightarrow> int \<Rightarrow> 'x model \<times> 'r world
     \<Rightarrow> (exn + ('d \<times> 'd)) \<times> 'x model \<times> 'r world" where
  "run_model d step_count s =
     (let s' = run_loop d step_count [0..<nat step_count] s in
      (convert_result2dataframe d (lst_bank_ratio (snd s')) (lst_ibloan (snd s')), s'))"

subsection \<open>Scenarios\<close>

text \<open>
  A small process: no database file yet, a clock whose local time is nine hours ahead of
  UTC, stages that leave the agents as they are, writers that record the banks' ids.
\<close>

definition env0 :: "(unit, nat, nat list) env" where
  "env0 = \<lparr>sqlite_db = ''banksim.db'', db_init_query = ''init.sql'',
     io_fault = (\<lambda>tr c. None), file_text = (\<lambda>p. ''CREATE TABLE simulation (simid)''),
     now_local = (\<lambda>k. \<lparr>year = 2024, month = 5, day = 17, hour = 9, minute = 30, second = k\<rparr>),
     now_utc = (\<lambda>k. \<lparr>year = 2024, month = 5, day = 17, hour = 0, minute = 30, second = k\<rparr>),
     rand = (\<lambda>k. k),
     Bank_new = (\<lambda>u r c e. (True, e, ())), Saver_new = (\<lambda>u. ()), Loan_new = (\<lambda>u r. ()),
     initialize_deposit_base = (\<lambda>s. (None, agents s)),
     initialize_loan_book = (\<lambda>s c r. (None, agents s)),
     main_evaluate_solvency = (\<lambda>s rr bl c. (None, agents s)),
     main_second_round_effects = (\<lambda>s bl c g. (None, agents s, g)),
     main_risk_weight_optimization = (\<lambda>s c. (None, agents s)),
     main_pay_dividends = (\<lambda>s c r. (None, agents s)),
     main_reset_insolvent_loans = (\<lambda>s. (None, agents s)),
     main_build_loan_book_locally = (\<lambda>s r c. (None, agents s)),
     main_build_loan_book_globally = (\<lambda>s c r. (None, agents s)),
     main_evaluate_liquidity = (\<lambda>s c r bl. (None, agents s)),
     main_write_bank_ratios = (\<lambda>s l c r. (None, map unique_id (filter is_Bank (agents s)))),
     main_write_interbank_links = (\<lambda>s l. (None, [])),
     agents_step = (\<lambda>ags. (None, ags)),
     convert_result2dataframe = (\<lambda>a b. Inr (a, b))\<rparr>"

definition world0 :: "nat world" where
  "world0 = \<lparr>trace = [], log = [], stdout = [], step_calls = 0, db_file_exists = False,
     live_conns = [], live_cursors = [], tbl_simulation = [], clock_reads = 0, rng_draws = 0,
     lst_bank_ratio = [], lst_ibloan = []\<rparr>"

definition args0 :: args where
  "args0 = default_args\<lparr>arg_initial_saver := 2, arg_initial_loan := 3, arg_initial_bank := 2\<rparr>"

text \<open>The model that \<^verbatim>\<open>BankSim(initial_saver=2, initial_loan=3, initial_bank=2)\<close> builds.\<close>

definition start0 :: "unit model \<times> nat world" where
  "start0 = (case BankSim_init env0 args0 world0 of
               (Inr m, w) \<Rightarrow> (m, w) | (Inl e, w) \<Rightarrow> (new_model args0, w))"

text \<open>The same process with a solvency stage that raises at every call.\<close>

definition env_solvency_raises :: "(unit, nat, nat list) env" where
  "env_solvency_raises =
     env0\<lparr>main_evaluate_solvency :=
            (\<lambda>s rr bl c. (Some (Fault ''main_evaluate_solvency''), agents s))\<rparr>"

text \<open>A solvency stage that finds every bank insolvent.\<close>

fun fail_bank :: "'x agent \<Rightarrow> 'x agent" where
  "fail_bank (Bank u p s t x) = Bank u p False t x"
| "fail_bank (Saver u p x) = Saver u p x"
| "fail_bank (Loan u p b x) = Loan u p b x"

definition env_all_insolvent :: "(unit, nat, nat list) env" where
  "env_all_insolvent =
     env0\<lparr>main_evaluate_solvency := (\<lambda>s rr bl c. (None, map fail_bank (agents s)))\<rparr>"

text \<open>The same, with a second-round stage that raises.\<close>

definition env_insolvent_then_raises :: "(unit, nat, nat list) env" where
  "env_insolvent_then_raises =
     env_all_insolvent\<lparr>main_second_round_effects :=
       (\<lambda>s bl c g. (Some (Fault ''main_second_round_effects''), agents s, g))\<rparr>"

text \<open>
  A second model, built in the process that the first one has left after two steps, as
  \<^verbatim>\<open>m1 = BankSim(...); m1.run_model(2); m2 = BankSim(...)\<close> does.
\<close>

definition after_first_run :: "nat world" where
  "after_first_run = snd (snd (run_model env0 2 start0))"

definition second0 :: "unit model \<times> nat world" where
  "second0 = (case BankSim_init env0 args0 after_first_run of
                (Inr m, w) \<Rightarrow> (m, w) | (Inl e, w) \<Rightarrow> (new_model args0, w))"

text \<open>\<^verbatim>\<open>BankSim(initial_saver=2, initial_loan=3, initial_bank=0)\<close>\<close>

definition args_no_bank :: args where
  "args_no_bank = args0\<lparr>arg_initial_bank := 0\<rparr>"

text \<open>An initialisation of the loan book that books every bank's assets as 250.\<close>

fun book_assets :: "'x agent \<Rightarrow> 'x agent" where
  "book_assets (Bank u p s t x) = Bank u p s 250 x"
| "book_assets (Saver u p x) = Saver u p x"
| "book_assets (Loan u p b x) = Loan u p b x"

definition env_books_assets :: "(unit, nat, nat list) env" where
  "env_books_assets =
     env0\<lparr>initialize_loan_book := (\<lambda>s c r. (None, map book_assets (agents s)))\<rparr>"

text \<open>The model built in that process, with the defaults but for the three counts.\<close>

definition booked0 :: "unit model" where
  "booked0 = (case BankSim_init env_books_assets args0 world0 of
                (Inr m, w) \<Rightarrow> m | (Inl e, w) \<Rightarrow> new_model args0)"

subsection \<open>Notions used to state the properties\<close>

text \<open>The name, in the source, of the function that a call enters.\<close>

fun call_name :: "call \<Rightarrow> string" where
  "call_name (Isfile p) = ''os.path.isfile''"
| "call_name (Sqlite3_connect p) = ''sqlite3.connect''"
| "call_name (Conn_cursor h) = ''conn.cursor''"
| "call_name (Open_file p) = ''open''"
| "call_name (Executescript k q) = ''db_cursor.executescript''"
| "call_name (Conn_commit h) = ''conn.commit''"
| "call_name (Cursor_close k) = ''db_cursor.close''"
| "call_name (Conn_close h) = ''conn.close''"
| "call_name (Insert_simulation_table k n l t) = ''insert_simulation_table''"
| "call_name (Insert_agtbank_table k n i bs) = ''insert_agtbank_table''"
| "call_name Initialize_deposit_base = ''initialize_deposit_base''"
| "call_name Initialize_loan_book = ''initialize_loan_book''"
| "call_name Main_evaluate_solvency = ''main_evaluate_solvency''"
| "call_name Main_second_round_effects = ''main_second_round_effects''"
| "call_name Main_risk_weight_optimization = ''main_risk_weight_optimization''"
| "call_name Main_pay_dividends = ''main_pay_dividends''"
| "call_name Main_reset_insolvent_loans = ''main_reset_insolvent_loans''"
| "call_name Main_build_loan_book_locally = ''main_build_loan_book_locally''"
| "call_name Main_build_loan_book_globally = ''main_build_loan_book_globally''"
| "call_name Main_evaluate_liquidity = ''main_evaluate_liquidity''"
| "call_name Main_write_bank_ratios = ''main_write_bank_ratios''"
| "call_name Main_write_interbank_links = ''main_write_interbank_links''"
| "call_name Schedule_step = ''schedule.step''"
| "call_name Datacollector_collect = ''datacollector.collect''"

text \<open>The calls of the set-up of lines 125-129, and those of lines 133-166.\<close>

definition setup_names :: "string list" where
  "setup_names = [''sqlite3.connect'', ''conn.cursor'', ''insert_simulation_table'']"

definition body_names :: "string list" where
  "body_names =
     [''main_evaluate_solvency'', ''main_second_round_effects'',
      ''main_risk_weight_optimization'', ''main_pay_dividends'',
      ''main_reset_insolvent_loans'', ''main_build_loan_book_locally'',
      ''main_build_loan_book_globally'', ''main_evaluate_liquidity'',
      ''main_write_bank_ratios'', ''main_write_interbank_links'',
      ''insert_agtbank_table'', ''conn.commit'', ''schedule.step'',
      ''datacollector.collect'']"

text \<open>
  A statement run in \<open>s\<close> makes the calls named \<open>ns\<close>, in this order: all of them
  when it returns, the first few of them when it raises.
\<close>

definition makes_calls ::
  "('x model \<times> 'r world) stmt \<Rightarrow> 'x model \<times> 'r world \<Rightarrow> string list \<Rightarrow> bool" where
  "makes_calls c s ns \<longleftrightarrow>
     (\<exists>cs. trace (snd (snd (c s))) = trace (snd s) @ cs
           \<and> prefix (map call_name cs) ns
           \<and> (fst (c s) = None \<longrightarrow> map call_name cs = ns))"

text \<open>Lines 124-159: what has run when line 162 is reached.\<close>

definition before_snapshot :: "('x, 'r, 'd) env \<Rightarrow> ('x model \<times> 'r world) stmt" where
  "before_snapshot d =
     run_all (enter_step # first_step_setup d
              # pipeline d @ [st_write_bank_ratios d, st_write_interbank_links d])"

text \<open>What the statements of lines 133-166 leave as it was; the counter never drops.\<close>

definition body_frame :: "'x model \<times> 'r world \<Rightarrow> 'x model \<times> 'r world \<Rightarrow> bool" where
  "body_frame s t \<longleftrightarrow>
     log (snd t) = log (snd s) \<and> step_calls (snd t) = step_calls (snd s)
     \<and> tbl_simulation (snd t) = tbl_simulation (snd s)
     \<and> live_conns (snd t) = live_conns (snd s)
     \<and> conn (fst t) = conn (fst s) \<and> db_cursor (fst t) = db_cursor (fst s)
     \<and> simid (fst t) = simid (fst s)
     \<and> steps (schedule (fst s)) \<le> steps (schedule (fst t))"

text \<open>The two result lists of \<open>t\<close> extend those of \<open>s\<close>.\<close>

definition lists_grow :: "'x model \<times> 'r world \<Rightarrow> 'x model \<times> 'r world \<Rightarrow> bool" where
  "lists_grow s t \<longleftrightarrow>
     prefix (lst_bank_ratio (snd s)) (lst_bank_ratio (snd t))
     \<and> prefix (lst_ibloan (snd s)) (lst_ibloan (snd t))"

text \<open>The two result lists of \<open>t\<close> are those of \<open>s\<close>.\<close>

definition lists_kept :: "'x model \<times> 'r world \<Rightarrow> 'x model \<times> 'r world \<Rightarrow> bool" where
  "lists_kept s t \<longleftrightarrow>
     lst_bank_ratio (snd t) = lst_bank_ratio (snd s) \<and> lst_ibloan (snd t) = lst_ibloan (snd s)"

text \<open>The agents that the grid holds on node \<open>n\<close>: \<^verbatim>\<open>G.nodes[n]["agent"]\<close>.\<close>

definition node_agents :: "graph \<Rightarrow> nat \<Rightarrow> nat list" where
  "node_agents g n = (case map_of (nodes g) n of None \<Rightarrow> [] | Some ids \<Rightarrow> ids)"

text \<open>
  The nodes are \<open>0, ..., nb - 1\<close>, there is no edge, and every agent of the scheduler
  stands on one of the nodes, in the list of that node.
\<close>

definition placed :: "nat \<Rightarrow> 'x model \<Rightarrow> bool" where
  "placed nb m \<longleftrightarrow>
     map fst (nodes (G m)) = [0..<nb] \<and> edges (G m) = []
     \<and> (\<forall>x \<in> set (agents (schedule m)).
           \<exists>n. pos x = Some n \<and> n < nb \<and> unique_id x \<in> set (node_agents (G m) n))"

text \<open>Every node of \<open>B\<close> carries a Bank agent.\<close>

definition banks_at :: "nat set \<Rightarrow> 'x model \<Rightarrow> bool" where
  "banks_at B m \<longleftrightarrow> (\<forall>i \<in> B. \<exists>x \<in> set (agents (schedule m)). is_Bank x \<and> pos x = Some i)"

text \<open>
  What the constructor has built when it holds \<open>b\<close> banks, \<open>sv\<close> savers and \<open>l\<close>
  loans.
\<close>

definition built :: "args \<Rightarrow> nat \<Rightarrow> nat \<Rightarrow> nat \<Rightarrow> 'x model \<Rightarrow> bool" where
  "built a b sv l m \<longleftrightarrow>
     placed (nat (arg_initial_bank a)) m
     \<and> initial_bank m = arg_initial_bank a \<and> initial_saver m = arg_initial_saver a
     \<and> initial_loan m = arg_initial_loan a \<and> car m = arg_car a
     \<and> min_reserves_ratio m = arg_min_reserves_ratio a
     \<and> length (filter is_Bank (agents (schedule m))) = b
     \<and> length (filter is_Saver (agents (schedule m))) = sv
     \<and> length (filter is_Loan (agents (schedule m))) = l"

text \<open>What of an agent the construction invariant looks at: its class, its id, its node.\<close>

definition placement :: "'x agent \<Rightarrow> bool \<times> bool \<times> bool \<times> nat \<times> nat option" where
  "placement x = (is_Bank x, is_Saver x, is_Loan x, unique_id x, pos x)"

text \<open>
  A stage of the market initialisation keeps the population when it returns the agents
  it was given, each of its class, with its id, on its node, whatever else it changes.
\<close>

definition keeps_population :: "('x schedule \<Rightarrow> exn option \<times> 'x agent list) \<Rightarrow> bool" where
  "keeps_population f \<longleftrightarrow> (\<forall>s. map placement (snd (f s)) = map placement (agents s))"

section \<open>Properties\<close>

lemma fold_max_ge: "x \<in> set hs \<Longrightarrow> x \<le> fold max hs (a::nat)"
proof (induction hs arbitrary: a)
  case Nil
  then show ?case by simp
next
  case (Cons h hs)
  have mono: "b \<le> fold max hs b" for b :: nat
    by (induction hs arbitrary: b) (auto intro: order_trans [OF max.cobounded2])
  from Cons show ?case
    using mono [of "max h a"] by auto
qed

lemma fresh_handle_new: "fresh_handle hs \<notin> set hs"
  using fold_max_ge [of "fresh_handle hs" hs 0] by (auto simp: fresh_handle_def)

lemma remove1_fresh: "remove1 (fresh_handle hs) (hs @ [fresh_handle hs]) = hs"
  by (simp add: remove1_append fresh_handle_new)

subsection \<open>Blocks and loops\<close>

lemma run_all_rel:
  assumes refl: "\<And>s. R s s" and trans: "\<And>s t u. R s t \<Longrightarrow> R t u \<Longrightarrow> R s u"
    and each: "\<And>c s. c \<in> set cs \<Longrightarrow> R s (snd (c s))"
  shows "R s (snd (run_all cs s))"
  using each
proof (induction cs arbitrary: s)
  case Nil
  show ?case by (simp add: refl)
next
  case (Cons c cs)
  have 1: "R s (snd (c s))" by (rule Cons.prems) simp
  have 2: "R (snd (c s)) (snd (run_all cs (snd (c s))))"
    by (rule Cons.IH) (simp add: Cons.prems)
  show ?case
  proof (cases "c s")
    case (Pair r s')
    with 1 2 show ?thesis
      by (cases r) (auto intro: trans)
  qed
qed

lemma for_each_rel:
  assumes refl: "\<And>s. R s s" and trans: "\<And>s t u. R s t \<Longrightarrow> R t u \<Longrightarrow> R s u"
    and each: "\<And>x s. x \<in> set xs \<Longrightarrow> R s (snd (body x s))"
  shows "R s (snd (for_each body xs s))"
  using each
proof (induction xs arbitrary: s)
  case Nil
  show ?case by (simp add: refl)
next
  case (Cons x xs)
  have 1: "R s (snd (body x s))" by (rule Cons.prems) simp
  have 2: "R (snd (body x s)) (snd (for_each body xs (snd (body x s))))"
    by (rule Cons.IH) (simp add: Cons.prems)
  show ?case
  proof (cases "body x s")
    case (Pair r s')
    with 1 2 show ?thesis
      by (cases r) (auto intro: trans)
  qed
qed

lemma run_all_append:
  "run_all (as @ bs) s =
     (case run_all as s of (None, s') \<Rightarrow> run_all bs s' | (Some e, s') \<Rightarrow> (Some e, s'))"
  by (induction as arbitrary: s) (auto split: prod.splits option.splits)

lemma run_all_Cons_fst:
  "fst (run_all (c # cs) s) =
     (if fst (c s) = None then fst (run_all cs (snd (c s))) else fst (c s))"
  by (auto split: prod.splits option.splits)

lemma run_all_append_snd:
  "snd (run_all (as @ bs) s) =
     (if fst (run_all as s) = None then snd (run_all bs (snd (run_all as s)))
      else snd (run_all as s))"
  by (auto simp: run_all_append split: prod.splits option.splits)

lemma run_all_append_fst:
  "fst (run_all (as @ bs) s) =
     (if fst (run_all as s) = None then fst (run_all bs (snd (run_all as s)))
      else fst (run_all as s))"
  by (auto simp: run_all_append split: prod.splits option.splits)

subsection \<open>What the statements of step leave alone\<close>

lemmas stage_defs = st_evaluate_solvency_def st_second_round_effects_def
  st_risk_weight_optimization_def st_pay_dividends_def st_reset_insolvent_loans_def
  st_build_loan_book_locally_def st_build_loan_book_globally_def st_evaluate_liquidity_def
  call_stage_def

lemmas setup_defs = st_connect_def st_cursor_def st_simid_def st_insert_simulation_def

lemmas tail_defs = st_write_bank_ratios_def st_write_interbank_links_def
  st_insert_agtbank_def st_commit_def st_schedule_step_def collect_def

lemma step_body_frame: "body_frame s (snd (run_all (step_body d) s))"
  by (rule run_all_rel [where R = body_frame])
     (auto simp: body_frame_def step_body_def pipeline_def stage_defs tail_defs record_call_def
                 Let_def split: option.splits prod.splits)

lemma enter_step_eq:
  "enter_step s = (None, (fst s, (snd s)\<lparr>step_calls := step_calls (snd s) + 1\<rparr>))"
  by (simp add: enter_step_def split_beta)

lemma step_unfold:
  "step d s =
     (case first_step_setup d (fst s, (snd s)\<lparr>step_calls := step_calls (snd s) + 1\<rparr>) of
        (None, s') \<Rightarrow> run_all (step_body d) s'
      | (Some e, s') \<Rightarrow> (Some e, s'))"
  by (simp add: step_def enter_step_eq del: run_all.simps(2)) (simp add: enter_step_eq)

lemma first_step_setup_skip:
  "steps (schedule (fst s)) \<noteq> 0 \<Longrightarrow> first_step_setup d s = (None, s)"
  by (cases s) (simp add: first_step_setup_def)

text \<open>The set-up moves neither the log nor the scheduler.\<close>

lemma first_step_setup_frame:
  "log (snd (snd (first_step_setup d s))) = log (snd s)
   \<and> step_calls (snd (snd (first_step_setup d s))) = step_calls (snd s)
   \<and> schedule (fst (snd (first_step_setup d s))) = schedule (fst s)
   \<and> lst_bank_ratio (snd (snd (first_step_setup d s))) = lst_bank_ratio (snd s)
   \<and> lst_ibloan (snd (snd (first_step_setup d s))) = lst_ibloan (snd s)"
proof -
  let ?R = "\<lambda>s t. log (snd t) = log (snd s) \<and> step_calls (snd t) = step_calls (snd s)
     \<and> schedule (fst t) = schedule (fst s) \<and> lst_bank_ratio (snd t) = lst_bank_ratio (snd s)
     \<and> lst_ibloan (snd t) = lst_ibloan (snd s)"
  have "?R s (snd (run_all [st_connect d, st_cursor, st_simid d, st_insert_simulation d] s))"
    by (rule run_all_rel [where R = ?R])
       (auto simp: setup_defs record_call_def Let_def split: option.splits prod.splits)
  then show ?thesis
    by (cases s) (simp add: first_step_setup_def del: run_all.simps)
qed

lemma step_log: "log (snd (snd (step d s))) = log (snd s)"
  using first_step_setup_frame [of d "(fst s, (snd s)\<lparr>step_calls := step_calls (snd s) + 1\<rparr>)"]
    step_body_frame [of "snd (first_step_setup d (fst s, (snd s)\<lparr>step_calls := step_calls (snd s) + 1\<rparr>))" d]
  by (auto simp: step_unfold body_frame_def split: prod.splits option.splits)

lemma step_step_calls: "step_calls (snd (snd (step d s))) = step_calls (snd s) + 1"
  using first_step_setup_frame [of d "(fst s, (snd s)\<lparr>step_calls := step_calls (snd s) + 1\<rparr>)"]
    step_body_frame [of "snd (first_step_setup d (fst s, (snd s)\<lparr>step_calls := step_calls (snd s) + 1\<rparr>))" d]
  by (auto simp: step_unfold body_frame_def split: prod.splits option.splits)

text \<open>Once the counter has left 0, a step touches neither the run record nor the connection.\<close>

lemma step_started:
  assumes "steps (schedule (fst s)) \<noteq> 0"
  shows "tbl_simulation (snd (snd (step d s))) = tbl_simulation (snd s)
     \<and> live_conns (snd (snd (step d s))) = live_conns (snd s)
     \<and> conn (fst (snd (step d s))) = conn (fst s)
     \<and> db_cursor (fst (snd (step d s))) = db_cursor (fst s)
     \<and> simid (fst (snd (step d s))) = simid (fst s)
     \<and> steps (schedule (fst (snd (step d s)))) \<noteq> 0"
proof -
  let ?s1 = "(fst s, (snd s)\<lparr>step_calls := step_calls (snd s) + 1\<rparr>)"
  have "first_step_setup d ?s1 = (None, ?s1)"
    using assms by (simp add: first_step_setup_skip)
  then have "step d s = run_all (step_body d) ?s1"
    by (simp add: step_unfold)
  with step_body_frame [of ?s1 d] assms show ?thesis
    by (auto simp: body_frame_def)
qed

subsection \<open>The run record and the step counter\<close>

lemma step_body_advances:
  assumes "fst (run_all (step_body d) s) = None"
  shows "steps (schedule (fst (snd (run_all (step_body d) s)))) = steps (schedule (fst s)) + 1"
proof -
  let ?pre = "pipeline d @ [st_write_bank_ratios d, st_write_interbank_links d,
                            st_insert_agtbank d, st_commit d]"
  let ?t = "snd (run_all ?pre s)"
  have eq: "step_body d = ?pre @ [st_schedule_step d, collect]"
    by (simp add: step_body_def)
  have pre: "steps (schedule (fst ?t)) = steps (schedule (fst s))"
    by (rule run_all_rel [where R = "\<lambda>s t. steps (schedule (fst t)) = steps (schedule (fst s))"])
       (auto simp: pipeline_def stage_defs tail_defs record_call_def Let_def
             split: option.splits prod.splits)
  have last: "steps (schedule (fst (snd (run_all [st_schedule_step d, collect] t))))
              = steps (schedule (fst t)) + 1"
    if "fst (run_all [st_schedule_step d, collect] t) = None" for t
    using that
    by (cases t) (auto simp: tail_defs record_call_def Let_def split: option.splits prod.splits)
  from assms have 1: "fst (run_all ?pre s) = None"
    and 2: "fst (run_all [st_schedule_step d, collect] ?t) = None"
    unfolding eq run_all_append_fst by (auto split: if_splits)
  have "snd (run_all (step_body d) s) = snd (run_all [st_schedule_step d, collect] ?t)"
    unfolding eq run_all_append_snd using 1 by simp
  with last [OF 2] pre show ?thesis by simp
qed

text \<open>A call of step that returns has advanced the counter by one.\<close>

lemma step_returns_advances:
  assumes "fst (step d s) = None"
  shows "steps (schedule (fst (snd (step d s)))) = steps (schedule (fst s)) + 1"
proof -
  let ?s1 = "(fst s, (snd s)\<lparr>step_calls := step_calls (snd s) + 1\<rparr>)"
  let ?s2 = "snd (first_step_setup d ?s1)"
  from assms have 1: "fst (first_step_setup d ?s1) = None"
    and 2: "fst (run_all (step_body d) ?s2) = None"
    and 3: "snd (step d s) = snd (run_all (step_body d) ?s2)"
    by (auto simp: step_unfold split: prod.splits option.splits)
  from step_body_advances [OF 2] first_step_setup_frame [of d ?s1] 3 show ?thesis
    by simp
qed

text \<open>The set-up, when it runs and returns.\<close>

lemma first_step_setup_ok:
  assumes "steps (schedule (fst s)) = 0" and "fst (first_step_setup d s) = None"
  shows "\<exists>n h. simid (fst (snd (first_step_setup d s))) = Some n
     \<and> py_int (strftime_YmdHMS (now_local d (clock_reads (snd s)))) = Some n
     \<and> conn (fst (snd (first_step_setup d s))) = Some h
     \<and> tbl_simulation (snd (snd (first_step_setup d s)))
         = tbl_simulation (snd s) @ [(n, ''test'', now_utc d (clock_reads (snd s) + 1))]
     \<and> live_conns (snd (snd (first_step_setup d s))) = live_conns (snd s) @ [h]"
  using assms
  by (cases s)
     (auto simp: first_step_setup_def setup_defs record_call_def Let_def
           split: option.splits prod.splits)

lemma step_first_ok:
  assumes "steps (schedule (fst s)) = 0" and "fst (step d s) = None"
  shows "\<exists>n h. simid (fst (snd (step d s))) = Some n
     \<and> py_int (strftime_YmdHMS (now_local d (clock_reads (snd s)))) = Some n
     \<and> conn (fst (snd (step d s))) = Some h
     \<and> tbl_simulation (snd (snd (step d s)))
         = tbl_simulation (snd s) @ [(n, ''test'', now_utc d (clock_reads (snd s) + 1))]
     \<and> live_conns (snd (snd (step d s))) = live_conns (snd s) @ [h]"
proof -
  let ?s1 = "(fst s, (snd s)\<lparr>step_calls := step_calls (snd s) + 1\<rparr>)"
  let ?s2 = "snd (first_step_setup d ?s1)"
  from assms(2) have 1: "fst (first_step_setup d ?s1) = None"
    and 3: "snd (step d s) = snd (run_all (step_body d) ?s2)"
    by (auto simp: step_unfold split: prod.splits option.splits)
  have 0: "steps (schedule (fst ?s1)) = 0" using assms(1) by simp
  have f: "simid (fst (snd (step d s))) = simid (fst ?s2)"
    "tbl_simulation (snd (snd (step d s))) = tbl_simulation (snd ?s2)"
    "conn (fst (snd (step d s))) = conn (fst ?s2)"
    "live_conns (snd (snd (step d s))) = live_conns (snd ?s2)"
    using step_body_frame [of ?s2 d] 3 by (simp_all add: body_frame_def)
  have c: "clock_reads (snd ?s1) = clock_reads (snd s)"
    "tbl_simulation (snd ?s1) = tbl_simulation (snd s)"
    "live_conns (snd ?s1) = live_conns (snd s)"
    by simp_all
  show ?thesis
    unfolding f using first_step_setup_ok [OF 0 1] unfolding c .
qed

subsection \<open>The loop of run_model\<close>

lemma progress_frame:
  "fst (progress sc i s) = fst s \<and> log (snd (progress sc i s)) = log (snd s)
   \<and> step_calls (snd (progress sc i s)) = step_calls (snd s)
   \<and> tbl_simulation (snd (progress sc i s)) = tbl_simulation (snd s)
   \<and> live_conns (snd (progress sc i s)) = live_conns (snd s)
   \<and> lst_bank_ratio (snd (progress sc i s)) = lst_bank_ratio (snd s)
   \<and> lst_ibloan (snd (progress sc i s)) = lst_ibloan (snd s)
   \<and> clock_reads (snd (progress sc i s)) = clock_reads (snd s)
   \<and> trace (snd (progress sc i s)) = trace (snd s)"
  by (cases s) (simp add: progress_def)

lemma log_info_frame:
  "fst (log_info x s) = fst s \<and> log (snd (log_info x s)) = log (snd s) @ [x]
   \<and> step_calls (snd (log_info x s)) = step_calls (snd s)
   \<and> tbl_simulation (snd (log_info x s)) = tbl_simulation (snd s)
   \<and> live_conns (snd (log_info x s)) = live_conns (snd s)
   \<and> lst_bank_ratio (snd (log_info x s)) = lst_bank_ratio (snd s)
   \<and> lst_ibloan (snd (log_info x s)) = lst_ibloan (snd s)"
  by (cases s) (simp add: log_info_def)

lemma iteration_cases:
  "iteration d sc i s =
     (case fst (step d (progress sc i s)) of
        None \<Rightarrow> snd (step d (progress sc i s))
      | Some e \<Rightarrow> log_info (format_exc e) (snd (step d (progress sc i s))))"
  by (simp add: iteration_def split: prod.splits option.splits)

lemma iteration_started:
  assumes "steps (schedule (fst s)) \<noteq> 0"
  shows "tbl_simulation (snd (iteration d sc i s)) = tbl_simulation (snd s)
     \<and> live_conns (snd (iteration d sc i s)) = live_conns (snd s)
     \<and> conn (fst (iteration d sc i s)) = conn (fst s)
     \<and> db_cursor (fst (iteration d sc i s)) = db_cursor (fst s)
     \<and> simid (fst (iteration d sc i s)) = simid (fst s)
     \<and> steps (schedule (fst (iteration d sc i s))) \<noteq> 0"
proof -
  have "steps (schedule (fst (progress sc i s))) \<noteq> 0"
    using assms by (simp add: progress_frame)
  from step_started [OF this, of d] show ?thesis
    by (simp add: iteration_cases progress_frame log_info_frame split: option.splits)
qed

lemma run_loop_started:
  assumes "steps (schedule (fst s)) \<noteq> 0"
  shows "tbl_simulation (snd (run_loop d sc is s)) = tbl_simulation (snd s)
     \<and> live_conns (snd (run_loop d sc is s)) = live_conns (snd s)
     \<and> conn (fst (run_loop d sc is s)) = conn (fst s)
     \<and> db_cursor (fst (run_loop d sc is s)) = db_cursor (fst s)
     \<and> simid (fst (run_loop d sc is s)) = simid (fst s)"
  using assms
proof (induction "is" arbitrary: s)
  case Nil
  then show ?case by simp
next
  case (Cons i "is")
  from iteration_started [OF Cons.prems, of d sc i] Cons.IH [of "iteration d sc i s"]
  show ?case
    by (simp add: Let_def log_info_frame)
qed

subsection \<open>The digits of a timestamp spell its number\<close>

lemma digit_val_digit_char: "n < 10 \<Longrightarrow> digit_val (digit_char n) = Some n"
  by (simp add: digit_val_def digit_char_def Let_def)

lemma fold_py_int_dec:
  "fold py_int_step (dec n) (Some a) = Some (a * 10 ^ length (dec n) + int n)"
proof (induction n arbitrary: a rule: dec.induct)
  case (1 n)
  show ?case
  proof (cases "n < 10")
    case True
    then show ?thesis
      by (subst dec.simps, subst (2) dec.simps) (simp add: py_int_step_def digit_val_digit_char)
  next
    case False
    have m: "n mod 10 < 10" by simp
    have n: "int n = int (n div 10) * 10 + int (n mod 10)"
      by (metis mult.commute of_nat_add of_nat_mult of_nat_numeral mult_div_mod_eq)
    from False show ?thesis
      apply (subst dec.simps, subst (2) dec.simps)
      apply (simp add: "1.IH" py_int_step_def digit_val_digit_char [OF m])
      apply (rule n [symmetric])
      done
  qed
qed

lemma char_of_48: "char_of (48::nat) = CHR ''0''"
  by code_simp

lemma dec_two_digits: "n < 100 \<Longrightarrow> pad_left CHR ''0'' 2 (dec n) = [digit_char (n div 10), digit_char (n mod 10)]"
proof (cases "n < 10")
  case True
  then show ?thesis
    by (subst dec.simps) (simp add: pad_left_def digit_char_def char_of_48)
next
  case False
  assume "n < 100"
  with False have "n div 10 < 10" by simp
  then have "dec (n div 10) = [digit_char (n div 10)]" by (subst dec.simps) simp
  with False show ?thesis
    by (subst dec.simps) (simp add: pad_left_def)
qed

lemma fold_py_int_two:
  assumes "n < 100"
  shows "fold py_int_step (pad_left CHR ''0'' 2 (dec n)) (Some a) = Some (a * 100 + int n)"
proof -
  have d: "n div 10 < 10" using assms by simp
  have m: "n mod 10 < 10" by simp
  have n: "int n = int (n div 10) * 10 + int (n mod 10)"
    by (metis mult.commute of_nat_add of_nat_mult of_nat_numeral mult_div_mod_eq)
  show ?thesis
    apply (simp add: dec_two_digits [OF assms] py_int_step_def digit_val_digit_char [OF m] digit_val_digit_char [OF d])
    apply (rule n [symmetric])
    done
qed

lemma dec_not_Nil: "dec n \<noteq> []"
  by (subst dec.simps) simp

lemma py_int_strftime:
  assumes "valid_datetime t"
  shows "py_int (strftime_YmdHMS t) = Some (timestamp_number t)"
proof -
  from assms have b: "month t < 100" "day t < 100" "hour t < 100" "minute t < 100" "second t < 100"
    by (auto simp: valid_datetime_def)
  have ne: "strftime_YmdHMS t \<noteq> []"
    by (simp add: strftime_YmdHMS_def dec_not_Nil)
  show ?thesis
    unfolding py_int_def using ne
    by (simp add: strftime_YmdHMS_def fold_py_int_dec fold_py_int_two b timestamp_number_def)
qed

subsection \<open>init_database releases what it acquires\<close>

lemmas idb_defs = idb_connect_def idb_cursor_def idb_open_def idb_executescript_def
  idb_commit_def idb_cursor_close_def idb_conn_close_def record_call_def

text \<open>
  C5. Whatever \<^verbatim>\<open>init_database\<close> does -- the script runs, or \<^verbatim>\<open>connect\<close>,
  \<^verbatim>\<open>open\<close>, \<^verbatim>\<open>executescript\<close> or \<^verbatim>\<open>commit\<close> raises -- the connections and the
  cursors that are open when it returns or raises are those that were open when it was
  called: the connection and the cursor it acquired have been closed.
\<close>

theorem init_database_releases_handles:
  "live_conns (snd (init_database d w)) = live_conns w
   \<and> live_cursors (snd (init_database d w)) = live_cursors w"
  by (auto simp: init_database_def idb_defs Let_def remove1_fresh
           split: option.splits prod.splits)

subsection \<open>One run record while the counter is 0\<close>

text \<open>
  C1, as the code has it. The run record is inserted (and the connection opened, the id
  minted) by a call of \<^verbatim>\<open>step()\<close> that finds the scheduler's counter at 0. A call that
  returns has advanced the counter, and from a counter that is not 0 no call of
  \<^verbatim>\<open>step()\<close>, made directly or by the loop of \<^verbatim>\<open>run_model\<close>, raising or not, touches
  the run-record table, the open connections or the id. So a run whose first call of
  \<^verbatim>\<open>step()\<close> returns opens one connection and inserts one run record.
\<close>

theorem run_record_inserted_while_counter_is_zero:
  "(steps (schedule (fst s)) = 0 \<and> 0 < sc \<and> fst (step d (progress sc 0 s)) = None \<longrightarrow>
      (\<exists>n h. simid (fst (snd (run_model d sc s))) = Some n
         \<and> conn (fst (snd (run_model d sc s))) = Some h
         \<and> tbl_simulation (snd (snd (run_model d sc s)))
             = tbl_simulation (snd s) @ [(n, ''test'', now_utc d (clock_reads (snd s) + 1))]
         \<and> live_conns (snd (snd (run_model d sc s))) = live_conns (snd s) @ [h]))
   \<and> (steps (schedule (fst s)) = 0 \<and> fst (step d s) = None \<longrightarrow>
      (\<exists>n h. simid (fst (snd (step d s))) = Some n
         \<and> conn (fst (snd (step d s))) = Some h
         \<and> tbl_simulation (snd (snd (step d s)))
             = tbl_simulation (snd s) @ [(n, ''test'', now_utc d (clock_reads (snd s) + 1))]
         \<and> live_conns (snd (snd (step d s))) = live_conns (snd s) @ [h])
      \<and> steps (schedule (fst (snd (step d s)))) \<noteq> 0)
   \<and> (steps (schedule (fst s)) \<noteq> 0 \<longrightarrow>
      tbl_simulation (snd (snd (step d s))) = tbl_simulation (snd s)
      \<and> live_conns (snd (snd (step d s))) = live_conns (snd s)
      \<and> conn (fst (snd (step d s))) = conn (fst s)
      \<and> simid (fst (snd (step d s))) = simid (fst s)
      \<and> steps (schedule (fst (snd (step d s)))) \<noteq> 0
      \<and> tbl_simulation (snd (run_loop d sc is s)) = tbl_simulation (snd s)
      \<and> live_conns (snd (run_loop d sc is s)) = live_conns (snd s)
      \<and> conn (fst (run_loop d sc is s)) = conn (fst s)
      \<and> simid (fst (run_loop d sc is s)) = simid (fst s))"
proof (intro conjI impI)
  assume a: "steps (schedule (fst s)) = 0 \<and> 0 < sc \<and> fst (step d (progress sc 0 s)) = None"
  let ?p = "progress sc 0 s"
  let ?t = "snd (step d ?p)"
  from a have p0: "steps (schedule (fst ?p)) = 0" and ok: "fst (step d ?p) = None"
    by (simp_all add: progress_frame)
  have it: "iteration d sc 0 s = ?t"
    using ok by (simp add: iteration_cases)
  from a have upt: "[0..<nat sc] = 0 # [1..<nat sc]"
    by (simp add: upt_conv_Cons)
  have started: "steps (schedule (fst ?t)) \<noteq> 0"
    using step_returns_advances [OF ok] by simp
  have fin: "tbl_simulation (snd (snd (run_model d sc s))) = tbl_simulation (snd ?t)"
    "simid (fst (snd (run_model d sc s))) = simid (fst ?t)"
    "conn (fst (snd (run_model d sc s))) = conn (fst ?t)"
    "live_conns (snd (snd (run_model d sc s))) = live_conns (snd ?t)"
    using run_loop_started [OF started, of d sc "[1..<nat sc]"]
    by (simp_all add: run_model_def upt it Let_def log_info_frame del: upt.simps)
  have c: "clock_reads (snd ?p) = clock_reads (snd s)"
    "tbl_simulation (snd ?p) = tbl_simulation (snd s)"
    "live_conns (snd ?p) = live_conns (snd s)"
    by (simp_all add: progress_frame)
  from step_first_ok [OF p0 ok] show
    "\<exists>n h. simid (fst (snd (run_model d sc s))) = Some n
         \<and> conn (fst (snd (run_model d sc s))) = Some h
         \<and> tbl_simulation (snd (snd (run_model d sc s)))
             = tbl_simulation (snd s) @ [(n, ''test'', now_utc d (clock_reads (snd s) + 1))]
         \<and> live_conns (snd (snd (run_model d sc s))) = live_conns (snd s) @ [h]"
    unfolding c fin by blast
next
  assume a: "steps (schedule (fst s)) = 0 \<and> fst (step d s) = None"
  then have z: "steps (schedule (fst s)) = 0" and ok: "fst (step d s) = None" by simp_all
  from step_first_ok [OF z ok] show
    "\<exists>n h. simid (fst (snd (step d s))) = Some n
         \<and> conn (fst (snd (step d s))) = Some h
         \<and> tbl_simulation (snd (snd (step d s)))
             = tbl_simulation (snd s) @ [(n, ''test'', now_utc d (clock_reads (snd s) + 1))]
         \<and> live_conns (snd (snd (step d s))) = live_conns (snd s) @ [h]"
    by blast
  from step_returns_advances [OF ok] show "steps (schedule (fst (snd (step d s)))) \<noteq> 0"
    by simp
next
  assume a: "steps (schedule (fst s)) \<noteq> 0"
  from step_started [OF a, of d] show
    "tbl_simulation (snd (snd (step d s))) = tbl_simulation (snd s)"
    "live_conns (snd (snd (step d s))) = live_conns (snd s)"
    "conn (fst (snd (step d s))) = conn (fst s)"
    "simid (fst (snd (step d s))) = simid (fst s)"
    "steps (schedule (fst (snd (step d s)))) \<noteq> 0"
    by simp_all
  from run_loop_started [OF a, of d sc "is"] show
    "tbl_simulation (snd (run_loop d sc is s)) = tbl_simulation (snd s)"
    "live_conns (snd (run_loop d sc is s)) = live_conns (snd s)"
    "conn (fst (run_loop d sc is s)) = conn (fst s)"
    "simid (fst (run_loop d sc is s)) = simid (fst s)"
    by simp_all
qed

theorem run_record_inserted_while_counter_is_zero_witness:
  "steps (schedule (fst start0)) = 0 \<and> fst (step env0 (progress 3 0 start0)) = None
   \<and> tbl_simulation (snd (snd (run_model env0 3 start0)))
       = [(20240517093000, ''test'',
           \<lparr>year = 2024, month = 5, day = 17, hour = 0, minute = 30, second = 1\<rparr>)]
   \<and> live_conns (snd (snd (run_model env0 3 start0))) = [1]
   \<and> steps (schedule (fst (snd (step env0 start0)))) = 1
   \<and> tbl_simulation (snd (run_loop env0 3 [1, 2] (snd (step env0 start0))))
       = tbl_simulation (snd (snd (step env0 start0)))"
proof -
  have h1: "steps (schedule (fst start0)) = 0" by code_simp
  have h2: "fst (step env0 (progress 3 0 start0)) = None" by code_simp
  have h4: "steps (schedule (fst (snd (step env0 start0)))) = 1" by code_simp
  have v: "tbl_simulation (snd start0) = []" "live_conns (snd start0) = []"
    "clock_reads (snd start0) = 0"
    "simid (fst (snd (run_model env0 3 start0))) = Some 20240517093000"
    "conn (fst (snd (run_model env0 3 start0))) = Some 1"
    "now_utc env0 (Suc 0)
       = \<lparr>year = 2024, month = 5, day = 17, hour = 0, minute = 30, second = 1\<rparr>"
    by code_simp+
  from run_record_inserted_while_counter_is_zero [of start0 3 env0] h1 h2
  have a: "tbl_simulation (snd (snd (run_model env0 3 start0)))
       = [(20240517093000, ''test'',
           \<lparr>year = 2024, month = 5, day = 17, hour = 0, minute = 30, second = 1\<rparr>)]
     \<and> live_conns (snd (snd (run_model env0 3 start0))) = [1]"
    by (auto simp: v)
  from run_record_inserted_while_counter_is_zero [of "snd (step env0 start0)" 3 env0 "[1, 2]"] h4
  have b: "tbl_simulation (snd (run_loop env0 3 [1, 2] (snd (step env0 start0))))
       = tbl_simulation (snd (snd (step env0 start0)))"
    by simp
  from h1 h2 h4 a b show ?thesis by simp
qed

text \<open>
  C1 as stated fails: when the solvency stage raises at each call, the counter stays at 0
  and both calls of \<^verbatim>\<open>step()\<close> made by \<^verbatim>\<open>run_model(2)\<close> insert a run record.
\<close>

theorem second_run_record_after_contained_error:
  "fst (step env_solvency_raises (progress 2 0 start0)) = Some (Fault ''main_evaluate_solvency'')
   \<and> tbl_simulation (snd start0) = [] \<and> live_conns (snd start0) = []
   \<and> step_calls (snd (snd (run_model env_solvency_raises 2 start0))) = 2
   \<and> live_conns (snd (snd (run_model env_solvency_raises 2 start0))) = [1, 2]
   \<and> tbl_simulation (snd (snd (run_model env_solvency_raises 2 start0)))
       = [(20240517093000, ''test'',
           \<lparr>year = 2024, month = 5, day = 17, hour = 0, minute = 30, second = 1\<rparr>),
          (20240517093002, ''test'',
           \<lparr>year = 2024, month = 5, day = 17, hour = 0, minute = 30, second = 3\<rparr>)]"
  by code_simp

subsection \<open>The run id is the local time\<close>

lemma first_step_setup_simid:
  assumes "steps (schedule (fst s)) = 0"
    and "io_fault d (trace (snd s)) (Sqlite3_connect (sqlite_db d)) = None"
    and "py_int (strftime_YmdHMS (now_local d (clock_reads (snd s)))) = Some n"
  shows "simid (fst (snd (first_step_setup d s))) = Some n"
  using assms
  by (cases s)
     (auto simp: first_step_setup_def setup_defs record_call_def Let_def
           split: option.splits prod.splits)

lemma step_simid:
  "simid (fst (snd (step d s)))
     = simid (fst (snd (first_step_setup d
                          (fst s, (snd s)\<lparr>step_calls := step_calls (snd s) + 1\<rparr>))))"
  using step_body_frame [of "snd (first_step_setup d
                          (fst s, (snd s)\<lparr>step_calls := step_calls (snd s) + 1\<rparr>))" d]
  by (auto simp: step_unfold body_frame_def split: prod.splits option.splits)

text \<open>
  C4, as the code has it. Line 127 reads \<^verbatim>\<open>datetime.now()\<close>, the local time: once the
  connection of the first call of \<^verbatim>\<open>step()\<close> is open, the run id is the number that the
  digits YYYYMMDDHHMMSS of the local time spell. Only the creation timestamp that goes
  into the run record with it (line 128) is read from the UTC clock.
\<close>

theorem run_id_encodes_local_time:
  assumes "steps (schedule (fst s)) = 0"
    and "io_fault d (trace (snd s)) (Sqlite3_connect (sqlite_db d)) = None"
    and "valid_datetime (now_local d (clock_reads (snd s)))"
  shows "simid (fst (snd (step d s)))
           = Some (timestamp_number (now_local d (clock_reads (snd s))))
     \<and> (fst (step d s) = None \<longrightarrow>
          tbl_simulation (snd (snd (step d s)))
            = tbl_simulation (snd s)
              @ [(timestamp_number (now_local d (clock_reads (snd s))), ''test'',
                  now_utc d (clock_reads (snd s) + 1))])"
proof -
  let ?s1 = "(fst s, (snd s)\<lparr>step_calls := step_calls (snd s) + 1\<rparr>)"
  have id: "simid (fst (snd (step d s)))
              = Some (timestamp_number (now_local d (clock_reads (snd s))))"
    unfolding step_simid
    by (rule first_step_setup_simid) (simp_all add: assms py_int_strftime)
  show ?thesis
  proof (intro conjI impI)
    show "simid (fst (snd (step d s)))
            = Some (timestamp_number (now_local d (clock_reads (snd s))))"
      by (rule id)
  next
    assume ok: "fst (step d s) = None"
    from step_first_ok [OF assms(1) ok] show "tbl_simulation (snd (snd (step d s)))
            = tbl_simulation (snd s)
              @ [(timestamp_number (now_local d (clock_reads (snd s))), ''test'',
                  now_utc d (clock_reads (snd s) + 1))]"
      by (auto simp: id)
  qed
qed

theorem run_id_encodes_local_time_witness:
  "steps (schedule (fst start0)) = 0
   \<and> io_fault env0 (trace (snd start0)) (Sqlite3_connect (sqlite_db env0)) = None
   \<and> valid_datetime (now_local env0 (clock_reads (snd start0)))
   \<and> now_local env0 (clock_reads (snd start0))
       = \<lparr>year = 2024, month = 5, day = 17, hour = 9, minute = 30, second = 0\<rparr>
   \<and> simid (fst (snd (step env0 start0))) = Some 20240517093000"
proof -
  have h1: "steps (schedule (fst start0)) = 0" by code_simp
  have h2: "io_fault env0 (trace (snd start0)) (Sqlite3_connect (sqlite_db env0)) = None"
    by (simp add: env0_def)
  have c: "clock_reads (snd start0) = 0" by code_simp
  have t: "now_local env0 0
       = \<lparr>year = 2024, month = 5, day = 17, hour = 9, minute = 30, second = 0\<rparr>"
    by (simp add: env0_def)
  have h3: "valid_datetime (now_local env0 (clock_reads (snd start0)))"
    unfolding c t by (simp add: valid_datetime_def)
  from run_id_encodes_local_time [OF h1 h2 h3]
  have "simid (fst (snd (step env0 start0))) = Some 20240517093000"
    unfolding c t by (simp add: timestamp_number_def)
  with h1 h2 h3 c t show ?thesis by simp
qed

text \<open>
  C4 as stated fails: at 00:30:00 UTC on a clock that shows 09:30:00 local time, the run
  id is 20240517093000, not the number 20240517003000 of the UTC reading.
\<close>

theorem run_id_is_not_utc:
  "now_utc env0 (clock_reads (snd start0))
     = \<lparr>year = 2024, month = 5, day = 17, hour = 0, minute = 30, second = 0\<rparr>
   \<and> timestamp_number (now_utc env0 (clock_reads (snd start0))) = 20240517003000
   \<and> simid (fst (snd (step env0 start0))) = Some 20240517093000
   \<and> simid (fst (snd (step env0 start0)))
       \<noteq> Some (timestamp_number (now_utc env0 (clock_reads (snd start0))))"
  by code_simp

subsection \<open>The result lists only grow\<close>

lemma lists_grow_refl: "lists_grow s s"
  by (simp add: lists_grow_def)

lemma lists_grow_trans: "lists_grow s t \<Longrightarrow> lists_grow t u \<Longrightarrow> lists_grow s u"
  by (auto simp: lists_grow_def intro: prefix_order.trans)

lemma step_lists_grow: "lists_grow s (snd (step d s))"
  unfolding step_def
  by (rule run_all_rel [where R = lists_grow])
     (auto simp: lists_grow_def enter_step_def first_step_setup_frame step_body_def pipeline_def
                 stage_defs tail_defs record_call_def Let_def
           split: option.splits prod.splits)

lemma iteration_lists_grow: "lists_grow s (iteration d sc i s)"
  using step_lists_grow [of "progress sc i s" d]
  by (simp add: iteration_cases lists_grow_def progress_frame log_info_frame
           split: option.splits)

lemma run_loop_lists_grow: "lists_grow s (run_loop d sc is s)"
proof (induction "is" arbitrary: s)
  case Nil
  show ?case by (simp add: lists_grow_refl)
next
  case (Cons i "is")
  have 1: "lists_grow s (iteration d sc i s)" by (rule iteration_lists_grow)
  have 2: "lists_grow (iteration d sc i s) (log_info x (iteration d sc i s))" for x
    by (simp add: lists_grow_def log_info_frame)
  from 1 2 Cons.IH [of "iteration d sc i s"] show ?case
    by (auto simp: Let_def intro: lists_grow_trans)
qed

text \<open>
  C8. Whatever the number of steps asked for, and whichever way the loop ends, what
  \<^verbatim>\<open>run_model\<close> hands back is what \<^verbatim>\<open>convert_result2dataframe\<close> makes of the two
  result lists as the loop has left them; the lists hold what they held before the run,
  followed by what the run appended.
\<close>

theorem run_model_returns_converted_lists:
  "fst (run_model d sc s)
     = convert_result2dataframe d (lst_bank_ratio (snd (snd (run_model d sc s))))
         (lst_ibloan (snd (snd (run_model d sc s))))
   \<and> snd (run_model d sc s) = run_loop d sc [0..<nat sc] s
   \<and> prefix (lst_bank_ratio (snd s)) (lst_bank_ratio (snd (snd (run_model d sc s))))
   \<and> prefix (lst_ibloan (snd s)) (lst_ibloan (snd (snd (run_model d sc s))))"
  using run_loop_lists_grow [of s d sc "[0..<nat sc]"]
  by (simp add: run_model_def Let_def lists_grow_def)

subsection \<open>The result lists belong to the class\<close>

lemma init_database_lists:
  "lst_bank_ratio (snd (init_database d w)) = lst_bank_ratio w
   \<and> lst_ibloan (snd (init_database d w)) = lst_ibloan w"
  by (auto simp: init_database_def idb_defs Let_def split: option.splits prod.splits)

lemmas ctor_defs = add_bank_def add_saver_def add_loan_def init_deposit_base_def
  init_loan_book_def set_running_def collect_def call_stage_def record_call_def

lemma lists_kept_refl: "lists_kept s s"
  by (simp add: lists_kept_def)

lemma lists_kept_trans: "lists_kept s t \<Longrightarrow> lists_kept t u \<Longrightarrow> lists_kept s u"
  by (simp add: lists_kept_def)

lemma for_each_lists_kept:
  assumes "\<And>x s. lists_kept s (snd (body x s))"
  shows "lists_kept s (snd (for_each body xs s))"
  by (rule for_each_rel [where R = lists_kept])
     (auto simp: assms lists_kept_refl intro: lists_kept_trans)

lemma ctor_stmt_lists:
  assumes "c \<in> set [init_db_if_missing d, create_banks d, create_savers d, create_loans d,
                     init_deposit_base d, init_loan_book d, set_running, collect]"
  shows "lists_kept s (snd (c s))"
proof -
  have b: "lists_kept s (snd (add_bank d x s))" for x s
    by (cases s) (auto simp: lists_kept_def ctor_defs Let_def split: sum.splits prod.splits)
  have sv: "lists_kept s (snd (add_saver d x s))" for x s
    by (cases s) (auto simp: lists_kept_def ctor_defs Let_def split: sum.splits prod.splits)
  have l: "lists_kept s (snd (add_loan d x s))" for x s
    by (cases s) (auto simp: lists_kept_def ctor_defs Let_def split: sum.splits prod.splits)
  have db: "lists_kept s (snd (init_db_if_missing d s))"
    using init_database_lists [of d "record_call (Isfile (sqlite_db d)) (snd s)"]
    by (cases s)
       (auto simp: lists_kept_def init_db_if_missing_def record_call_def Let_def
             split: option.splits prod.splits)
  have rest: "lists_kept s (snd (init_deposit_base d s))"
    "lists_kept s (snd (init_loan_book d s))"
    "lists_kept s (snd (set_running s))" "lists_kept s (snd (collect s))"
    by (cases s; auto simp: lists_kept_def ctor_defs Let_def split: prod.splits)+
  from assms show ?thesis
    using for_each_lists_kept [of "add_bank d", OF b]
      for_each_lists_kept [of "add_saver d", OF sv]
      for_each_lists_kept [of "add_loan d", OF l] db rest
    by (cases s) (auto simp: create_banks_def create_savers_def create_loans_def)
qed

lemma BankSim_init_world:
  "snd (BankSim_init d a w)
     = snd (snd (run_all [init_db_if_missing d, create_banks d, create_savers d,
                          create_loans d, init_deposit_base d, init_loan_book d,
                          set_running, collect] (new_model a, w)))"
  by (auto simp: BankSim_init_def split: prod.splits option.splits simp del: run_all.simps)

lemma BankSim_init_result:
  "fst (BankSim_init d a w) = Inr m \<longleftrightarrow>
     run_all [init_db_if_missing d, create_banks d, create_savers d,
              create_loans d, init_deposit_base d, init_loan_book d,
              set_running, collect] (new_model a, w) = (None, m, snd (BankSim_init d a w))"
  by (auto simp: BankSim_init_def split: prod.splits option.splits simp del: run_all.simps)

lemma BankSim_init_lists:
  "lst_bank_ratio (snd (BankSim_init d a w)) = lst_bank_ratio w
   \<and> lst_ibloan (snd (BankSim_init d a w)) = lst_ibloan w"
proof -
  let ?cs = "[init_db_if_missing d, create_banks d, create_savers d, create_loans d,
              init_deposit_base d, init_loan_book d, set_running, collect]"
  have "lists_kept (new_model a, w) (snd (run_all ?cs (new_model a, w)))"
    by (rule run_all_rel [where R = lists_kept])
       (auto simp: lists_kept_refl ctor_stmt_lists simp del: set_simps intro: lists_kept_trans)
  then show ?thesis
    by (simp add: lists_kept_def BankSim_init_world)
qed

text \<open>
  C9. \<^verbatim>\<open>lst_bank_ratio\<close> and \<^verbatim>\<open>lst_ibloan\<close> are attributes of the class. A call of
  \<^verbatim>\<open>step()\<close> on any instance appends to them; \<^verbatim>\<open>__init__\<close> leaves them as they are,
  whether it returns or raises; so \<^verbatim>\<open>run_model\<close> on a second instance converts lists
  that begin with everything the process held when that instance was built.
\<close>

theorem result_lists_are_shared_by_instances:
  "prefix (lst_bank_ratio w1) (lst_bank_ratio (snd (snd (step d (m1, w1)))))
   \<and> prefix (lst_ibloan w1) (lst_ibloan (snd (snd (step d (m1, w1)))))
   \<and> lst_bank_ratio (snd (BankSim_init d a w)) = lst_bank_ratio w
   \<and> lst_ibloan (snd (BankSim_init d a w)) = lst_ibloan w
   \<and> (fst (BankSim_init d a w) = Inr m2 \<longrightarrow>
        (\<exists>xs ys. fst (run_model d sc (m2, snd (BankSim_init d a w)))
                   = convert_result2dataframe d (lst_bank_ratio w @ xs) (lst_ibloan w @ ys)))"
proof -
  let ?w2 = "snd (BankSim_init d a w)"
  let ?f = "snd (snd (run_model d sc (m2, ?w2)))"
  have "lists_grow (m2, ?w2) (run_loop d sc [0..<nat sc] (m2, ?w2))"
    by (rule run_loop_lists_grow)
  then obtain xs ys where "lst_bank_ratio ?f = lst_bank_ratio w @ xs"
    and "lst_ibloan ?f = lst_ibloan w @ ys"
    by (auto simp: lists_grow_def run_model_def Let_def BankSim_init_lists prefix_def)
  then have "\<exists>xs ys. fst (run_model d sc (m2, ?w2))
                   = convert_result2dataframe d (lst_bank_ratio w @ xs) (lst_ibloan w @ ys)"
    by (auto simp: run_model_def Let_def)
  with step_lists_grow [of "(m1, w1)" d] BankSim_init_lists [of d a w] show ?thesis
    by (simp add: lists_grow_def)
qed

theorem result_lists_are_shared_by_instances_witness:
  "lst_bank_ratio after_first_run = [1, 2, 1, 2]
   \<and> fst (BankSim_init env0 args0 after_first_run) = Inr (fst second0)
   \<and> snd (BankSim_init env0 args0 after_first_run) = snd second0
   \<and> lst_bank_ratio (snd second0) = [1, 2, 1, 2]
   \<and> (\<exists>xs ys. fst (run_model env0 1 second0) = Inr ([1, 2, 1, 2] @ xs, ys))"
proof -
  have h1: "lst_bank_ratio after_first_run = [1, 2, 1, 2]" "lst_ibloan after_first_run = []"
    by code_simp+
  have h2: "fst (BankSim_init env0 args0 after_first_run) = Inr (fst second0)"
    by code_simp
  have h3: "snd (BankSim_init env0 args0 after_first_run) = snd second0"
    by code_simp
  have cv: "convert_result2dataframe env0 = (\<lambda>a b. Inr (a, b))"
    by (simp add: env0_def)
  from result_lists_are_shared_by_instances [of _ env0 _ args0 after_first_run "fst second0" 1] h2
  have a: "lst_bank_ratio (snd second0) = [1, 2, 1, 2]"
    and b: "\<exists>xs ys. fst (run_model env0 1 second0) = Inr ([1, 2, 1, 2] @ xs, ys)"
    unfolding h3 prod.collapse by (simp_all add: h1 cv)
  from h1 h2 h3 a b show ?thesis by blast
qed

subsection \<open>The loop, iteration by iteration\<close>

lemma iteration_step_calls:
  "step_calls (snd (iteration d sc i s)) = step_calls (snd s) + 1"
  by (simp add: iteration_cases step_step_calls progress_frame log_info_frame
           split: option.splits)

lemma iteration_log:
  "log (snd (iteration d sc i s))
     = log (snd s) @ (case fst (step d (progress sc i s)) of None \<Rightarrow> []
                      | Some e \<Rightarrow> [format_exc e])"
  by (simp add: iteration_cases step_log progress_frame log_info_frame split: option.splits)

lemma format_exc_not_notice: "format_exc e \<noteq> ''All banks are bankrupt!''"
  by (simp add: format_exc_def)

lemma iteration_log_no_notice:
  "\<exists>new. log (snd (iteration d sc i s)) = log (snd s) @ new
         \<and> ''All banks are bankrupt!'' \<notin> set new"
  by (cases "fst (step d (progress sc i s))")
     (simp_all add: iteration_log format_exc_not_notice [symmetric])

text \<open>A loop that has not stopped early has run every iteration and logged no notice.\<close>

lemma run_loop_no_stop:
  assumes "is = [] \<or> solvent_count (fst (run_loop d sc is s)) \<noteq> 0"
  shows "step_calls (snd (run_loop d sc is s)) = step_calls (snd s) + length is
     \<and> (\<exists>new. log (snd (run_loop d sc is s)) = log (snd s) @ new
               \<and> ''All banks are bankrupt!'' \<notin> set new)"
  using assms
proof (induction "is" arbitrary: s)
  case Nil
  show ?case by simp
next
  case (Cons i "is")
  let ?t = "iteration d sc i s"
  from Cons.prems have nz: "solvent_count (fst ?t) \<noteq> 0"
    by (auto simp: Let_def log_info_frame split: if_splits)
  then have eq: "run_loop d sc (i # is) s = run_loop d sc is ?t"
    by (simp add: Let_def)
  have "is = [] \<or> solvent_count (fst (run_loop d sc is ?t)) \<noteq> 0"
    using Cons.prems eq by simp
  from Cons.IH [OF this] iteration_log_no_notice [of d sc i s] show ?case
    unfolding eq by (auto simp: iteration_step_calls)
qed

lemma run_loop_append:
  "run_loop d sc (pre @ post) s =
     (if pre \<noteq> [] \<and> solvent_count (fst (run_loop d sc pre s)) = 0 then run_loop d sc pre s
      else run_loop d sc post (run_loop d sc pre s))"
proof (induction pre arbitrary: s)
  case Nil
  show ?case by simp
next
  case (Cons i pre)
  show ?case
  proof (cases "solvent_count (fst (iteration d sc i s)) = 0")
    case True
    then show ?thesis by (simp add: Let_def log_info_frame)
  next
    case False
    then show ?thesis
      using Cons.IH [of "iteration d sc i s"] by (cases pre) (simp_all add: Let_def)
  qed
qed

text \<open>The state in which iteration \<open>i\<close> of a run starts, when the run gets that far.\<close>

lemma run_loop_reaches:
  assumes "i < n" and "i = 0 \<or> solvent_count (fst (run_loop d sc [0..<i] s)) \<noteq> 0"
  shows "run_loop d sc [0..<n] s
           = run_loop d sc (i # [Suc i..<n]) (run_loop d sc [0..<i] s)"
proof -
  from assms(1) have "[0..<n] = [0..<i] @ i # [Suc i..<n]"
    by (metis less_imp_le_nat upt_add_eq_append upt_conv_Cons zero_le add_0
              le_add_diff_inverse)
  moreover have "run_loop d sc ([0..<i] @ i # [Suc i..<n]) s
      = run_loop d sc (i # [Suc i..<n]) (run_loop d sc [0..<i] s)"
    unfolding run_loop_append using assms(2)
    by (auto simp del: run_loop.simps(2) upt.simps)
  ultimately show ?thesis by (simp del: run_loop.simps(2) upt.simps)
qed

lemma run_model_fst:
  "fst (run_model d sc s)
     = convert_result2dataframe d (lst_bank_ratio (snd (snd (run_model d sc s))))
         (lst_ibloan (snd (snd (run_model d sc s))))"
  by (simp add: run_model_def Let_def)

lemma run_model_snd: "snd (run_model d sc s) = run_loop d sc [0..<nat sc] s"
  by (simp add: run_model_def Let_def)


subsection \<open>An error inside step does not leave the loop\<close>

text \<open>
  C2, as the code has it. Iteration \<open>i\<close> of a run is reached when \<open>i = 0\<close> or the
  iterations before it have left a solvent bank. An error raised inside \<^verbatim>\<open>step()\<close> at
  iteration \<open>i\<close> is caught; the traceback is the one line logged by that iteration; the
  model and the process stay as the failed step left them. The loop then goes on as
  after any iteration: to iteration \<open>i + 1\<close> when a solvent bank remains, to the notice
  and the end of the loop when none does. What \<^verbatim>\<open>run_model\<close> returns or raises is what
  the final conversion returns or raises: no error of a step leaves it.
\<close>

theorem step_error_is_contained:
  assumes "i < nat sc"
    and "i = 0 \<or> solvent_count (fst (run_loop d sc [0..<i] s0)) \<noteq> 0"
    and "fst (step d (progress sc i (run_loop d sc [0..<i] s0))) = Some e"
  shows "iteration d sc i (run_loop d sc [0..<i] s0)
           = log_info (format_exc e) (snd (step d (progress sc i (run_loop d sc [0..<i] s0))))
     \<and> log (snd (iteration d sc i (run_loop d sc [0..<i] s0)))
         = log (snd (run_loop d sc [0..<i] s0)) @ [format_exc e]
     \<and> (solvent_count (fst (iteration d sc i (run_loop d sc [0..<i] s0))) \<noteq> 0 \<longrightarrow>
          snd (run_model d sc s0)
            = run_loop d sc [Suc i..<nat sc] (iteration d sc i (run_loop d sc [0..<i] s0)))
     \<and> (solvent_count (fst (iteration d sc i (run_loop d sc [0..<i] s0))) = 0 \<longrightarrow>
          snd (run_model d sc s0)
            = log_info ''All banks are bankrupt!''
                (iteration d sc i (run_loop d sc [0..<i] s0)))
     \<and> fst (run_model d sc s0)
         = convert_result2dataframe d (lst_bank_ratio (snd (snd (run_model d sc s0))))
             (lst_ibloan (snd (snd (run_model d sc s0))))"
proof -
  let ?s = "run_loop d sc [0..<i] s0"
  have 1: "iteration d sc i ?s = log_info (format_exc e) (snd (step d (progress sc i ?s)))"
    using assms(3) by (simp add: iteration_cases)
  have 2: "log (snd (iteration d sc i ?s)) = log (snd ?s) @ [format_exc e]"
    using assms(3) by (simp add: iteration_log)
  have 3: "snd (run_model d sc s0) = run_loop d sc (i # [Suc i..<nat sc]) ?s"
    unfolding run_model_snd by (rule run_loop_reaches [OF assms(1) assms(2)])
  from 1 2 3 run_model_fst [of d sc s0] show ?thesis
    by (simp add: Let_def del: upt.simps)
qed

theorem step_error_is_contained_witness:
  "fst (step env_solvency_raises (progress 2 0 (run_loop env_solvency_raises 2 [0..<0] start0)))
     = Some (Fault ''main_evaluate_solvency'')
   \<and> solvent_count (fst (iteration env_solvency_raises 2 0
                           (run_loop env_solvency_raises 2 [0..<0] start0))) = 2
   \<and> log (snd (iteration env_solvency_raises 2 0
                  (run_loop env_solvency_raises 2 [0..<0] start0)))
       = log (snd (run_loop env_solvency_raises 2 [0..<0] start0))
         @ [format_exc (Fault ''main_evaluate_solvency'')]
   \<and> snd (run_model env_solvency_raises 2 start0)
       = run_loop env_solvency_raises 2 [Suc 0..<nat 2]
           (iteration env_solvency_raises 2 0 (run_loop env_solvency_raises 2 [0..<0] start0))"
proof -
  have h1: "(0::nat) < nat 2" by simp
  have h2: "(0::nat) = 0
      \<or> solvent_count (fst (run_loop env_solvency_raises 2 [0..<0] start0)) \<noteq> 0"
    by simp
  have h3: "fst (step env_solvency_raises
                   (progress 2 0 (run_loop env_solvency_raises 2 [0..<0] start0)))
              = Some (Fault ''main_evaluate_solvency'')"
    by code_simp
  have h4: "solvent_count (fst (iteration env_solvency_raises 2 0
                           (run_loop env_solvency_raises 2 [0..<0] start0))) = 2"
    by code_simp
  then have h5: "solvent_count (fst (iteration env_solvency_raises 2 0
                           (run_loop env_solvency_raises 2 [0..<0] start0))) \<noteq> 0"
    by simp
  from step_error_is_contained [OF h1 h2 h3] h3 h4 h5 show ?thesis
    by blast
qed

text \<open>
  C2 as stated fails: the solvency stage finds every bank insolvent, the second-round
  stage raises; the error of iteration 0 is logged, and the loop stops there, with the
  notice, instead of going on to iteration 1.
\<close>

theorem loop_stops_after_error_without_solvent_bank:
  "fst (step env_insolvent_then_raises (progress 2 0 start0))
     = Some (Fault ''main_second_round_effects'')
   \<and> step_calls (snd (snd (run_model env_insolvent_then_raises 2 start0)))
       = step_calls (snd start0) + 1
   \<and> log (snd (snd (run_model env_insolvent_then_raises 2 start0)))
       = log (snd start0) @ [format_exc (Fault ''main_second_round_effects''),
                             ''All banks are bankrupt!'']"
  by code_simp

subsection \<open>The loop stops when no bank is solvent\<close>

text \<open>
  C3, as the code has it. When iteration \<open>i\<close> of a run is reached (\<open>i = 0\<close>, or the
  iterations before it have left a solvent bank) and ends with no solvent bank, the loop
  logs the notice and ends: \<^verbatim>\<open>run_model\<close> leaves the state of that iteration with the
  notice as the last line of the log, the notice is the only one the run has logged, and
  \<^verbatim>\<open>step()\<close> has been entered \<open>i + 1\<close> times: fewer than \<^verbatim>\<open>step_count\<close> unless
  \<open>i\<close> is the last iteration.
\<close>

theorem loop_stops_when_no_bank_is_solvent:
  assumes "i < nat sc"
    and "i = 0 \<or> solvent_count (fst (run_loop d sc [0..<i] s0)) \<noteq> 0"
    and "solvent_count (fst (iteration d sc i (run_loop d sc [0..<i] s0))) = 0"
  shows "snd (run_model d sc s0)
           = log_info ''All banks are bankrupt!'' (iteration d sc i (run_loop d sc [0..<i] s0))
     \<and> step_calls (snd (snd (run_model d sc s0))) = step_calls (snd s0) + i + 1
     \<and> step_calls (snd (snd (run_model d sc s0))) \<le> step_calls (snd s0) + nat sc
     \<and> (\<exists>new. log (snd (snd (run_model d sc s0)))
                 = log (snd s0) @ new @ [''All banks are bankrupt!'']
               \<and> ''All banks are bankrupt!'' \<notin> set new)"
proof -
  let ?s = "run_loop d sc [0..<i] s0"
  let ?t = "iteration d sc i ?s"
  have fin: "snd (run_model d sc s0) = log_info ''All banks are bankrupt!'' ?t"
    unfolding run_model_snd run_loop_reaches [OF assms(1) assms(2)]
    using assms(3) by (simp add: Let_def del: upt.simps)
  have pre: "[0..<i] = [] \<or> solvent_count (fst ?s) \<noteq> 0"
    using assms(2) by auto
  from run_loop_no_stop [OF pre] obtain new1 where
    c: "step_calls (snd ?s) = step_calls (snd s0) + i"
    and l: "log (snd ?s) = log (snd s0) @ new1" "''All banks are bankrupt!'' \<notin> set new1"
    by auto
  from iteration_log_no_notice [of d sc i ?s] obtain new2 where
    l2: "log (snd ?t) = log (snd ?s) @ new2" "''All banks are bankrupt!'' \<notin> set new2"
    by auto
  have calls: "step_calls (snd (snd (run_model d sc s0))) = step_calls (snd s0) + i + 1"
    by (simp add: fin log_info_frame iteration_step_calls c)
  have "log (snd (snd (run_model d sc s0)))
          = log (snd s0) @ (new1 @ new2) @ [''All banks are bankrupt!'']"
    by (simp add: fin log_info_frame l l2)
  moreover have "''All banks are bankrupt!'' \<notin> set (new1 @ new2)"
    using l l2 by simp
  ultimately have "\<exists>new. log (snd (snd (run_model d sc s0)))
                 = log (snd s0) @ new @ [''All banks are bankrupt!'']
               \<and> ''All banks are bankrupt!'' \<notin> set new"
    by blast
  with fin calls assms(1) show ?thesis by simp
qed

theorem loop_stops_when_no_bank_is_solvent_witness:
  "solvent_count (fst (iteration env_all_insolvent 3 0
                         (run_loop env_all_insolvent 3 [0..<0] start0))) = 0
   \<and> step_calls (snd (snd (run_model env_all_insolvent 3 start0)))
       = step_calls (snd start0) + 0 + 1
   \<and> (\<exists>new. log (snd (snd (run_model env_all_insolvent 3 start0)))
               = log (snd start0) @ new @ [''All banks are bankrupt!'']
             \<and> ''All banks are bankrupt!'' \<notin> set new)"
proof -
  have h1: "(0::nat) < nat 3" by simp
  have h2: "(0::nat) = 0
      \<or> solvent_count (fst (run_loop env_all_insolvent 3 [0..<0] start0)) \<noteq> 0"
    by simp
  have h3: "solvent_count (fst (iteration env_all_insolvent 3 0
                         (run_loop env_all_insolvent 3 [0..<0] start0))) = 0"
    by code_simp
  from loop_stops_when_no_bank_is_solvent [OF h1 h2 h3] h3 show ?thesis
    by blast
qed

text \<open>
  C3 as stated fails when the iteration is the last one: \<^verbatim>\<open>run_model(1)\<close> on banks that
  the first step finds insolvent logs the notice after one step, and one is not fewer
  than \<^verbatim>\<open>step_count\<close>.
\<close>

theorem early_stop_at_last_iteration_runs_all_steps:
  "solvent_count (fst (iteration env_all_insolvent 1 0 start0)) = 0
   \<and> log (snd (snd (run_model env_all_insolvent 1 start0)))
       = log (snd start0) @ [''All banks are bankrupt!'']
   \<and> step_calls (snd (snd (run_model env_all_insolvent 1 start0))) - step_calls (snd start0) = 1
   \<and> \<not> step_calls (snd (snd (run_model env_all_insolvent 1 start0))) - step_calls (snd start0)
         < nat 1"
  by code_simp

subsection \<open>The order of the calls of a step\<close>

lemma makes_calls_Nil: "makes_calls (run_all []) s []"
  by (simp add: makes_calls_def)

lemma makes_calls_append:
  assumes "makes_calls c s ns" and "makes_calls (run_all cs) (snd (c s)) ms"
  shows "makes_calls (run_all (c # cs)) s (ns @ ms)"
proof -
  from assms(1) obtain xs where
    1: "trace (snd (snd (c s))) = trace (snd s) @ xs"
    and 2: "prefix (map call_name xs) ns"
    and 3: "fst (c s) = None \<longrightarrow> map call_name xs = ns"
    by (auto simp: makes_calls_def)
  show ?thesis
  proof (cases "fst (c s)")
    case None
    from assms(2) obtain ys where
      4: "trace (snd (snd (run_all cs (snd (c s))))) = trace (snd (snd (c s))) @ ys"
      and 5: "prefix (map call_name ys) ms"
      and 6: "fst (run_all cs (snd (c s))) = None \<longrightarrow> map call_name ys = ms"
      by (auto simp: makes_calls_def)
    from None have r: "run_all (c # cs) s = run_all cs (snd (c s))"
      by (cases "c s") simp
    from None 1 3 4 5 6 show ?thesis
      unfolding makes_calls_def r
      by (intro exI [of _ "xs @ ys"]) simp
  next
    case (Some e)
    then have r: "run_all (c # cs) s = (Some e, snd (c s))"
      by (cases "c s") simp
    from 1 2 show ?thesis
      unfolding makes_calls_def r
      by (intro exI [of _ xs]) (auto intro: prefix_order.trans)
  qed
qed

lemma makes_calls_one:
  assumes "makes_calls c s [n]" and "makes_calls (run_all cs) (snd (c s)) ms"
  shows "makes_calls (run_all (c # cs)) s (n # ms)"
  using makes_calls_append [OF assms] by simp

lemma makes_calls_none:
  assumes "makes_calls c s []" and "makes_calls (run_all cs) (snd (c s)) ms"
  shows "makes_calls (run_all (c # cs)) s ms"
  using makes_calls_append [OF assms] by simp

lemma stage_makes_calls:
  "makes_calls (st_evaluate_solvency d) s [''main_evaluate_solvency'']"
  "makes_calls (st_second_round_effects d) s [''main_second_round_effects'']"
  "makes_calls (st_risk_weight_optimization d) s [''main_risk_weight_optimization'']"
  "makes_calls (st_pay_dividends d) s [''main_pay_dividends'']"
  "makes_calls (st_reset_insolvent_loans d) s [''main_reset_insolvent_loans'']"
  "makes_calls (st_build_loan_book_locally d) s [''main_build_loan_book_locally'']"
  "makes_calls (st_build_loan_book_globally d) s [''main_build_loan_book_globally'']"
  "makes_calls (st_evaluate_liquidity d) s [''main_evaluate_liquidity'']"
  by (cases s; simp add: makes_calls_def stage_defs record_call_def Let_def split_beta)+

lemma tail_makes_calls:
  "makes_calls (st_write_bank_ratios d) s [''main_write_bank_ratios'']"
  "makes_calls (st_write_interbank_links d) s [''main_write_interbank_links'']"
  "makes_calls (st_insert_agtbank d) s [''insert_agtbank_table'']"
  "makes_calls (st_commit d) s [''conn.commit'']"
  "makes_calls (st_schedule_step d) s [''schedule.step'']"
  "makes_calls collect s [''datacollector.collect'']"
  by (cases s; simp add: makes_calls_def tail_defs record_call_def Let_def split_beta
                    split: option.splits)+

lemma body_makes_calls: "makes_calls (run_all (step_body d)) s body_names"
  unfolding step_body_def pipeline_def body_names_def append.simps
  by (intro makes_calls_one makes_calls_Nil stage_makes_calls tail_makes_calls)

lemma setup_stmt_makes_calls:
  "makes_calls (st_connect d) s [''sqlite3.connect'']"
  "makes_calls st_cursor s [''conn.cursor'']"
  "makes_calls (st_simid d) s []"
  "makes_calls (st_insert_simulation d) s [''insert_simulation_table'']"
  by (cases s; simp add: makes_calls_def setup_defs record_call_def Let_def split_beta
                    split: option.splits)+

lemma setup_makes_calls:
  "makes_calls (first_step_setup d) s
     (if steps (schedule (fst s)) = 0 then setup_names else [])"
proof (cases "steps (schedule (fst s)) = 0")
  case True
  have "makes_calls (run_all [st_connect d, st_cursor, st_simid d, st_insert_simulation d]) s
          setup_names"
    unfolding setup_names_def
    by (intro makes_calls_one makes_calls_none [of "st_simid d"] makes_calls_Nil
              setup_stmt_makes_calls)
  moreover have "first_step_setup d s
      = run_all [st_connect d, st_cursor, st_simid d, st_insert_simulation d] s"
    using True by (cases s) (simp add: first_step_setup_def del: run_all.simps)
  ultimately show ?thesis
    using True by (simp add: makes_calls_def del: run_all.simps)
next
  case False
  then show ?thesis
    by (simp add: first_step_setup_skip makes_calls_def)
qed

lemma step_makes_calls:
  "makes_calls (step d) s
     ((if steps (schedule (fst s)) = 0 then setup_names else []) @ body_names)"
proof -
  have e: "makes_calls enter_step s []"
    by (simp add: makes_calls_def enter_step_eq)
  have s1: "steps (schedule (fst (snd (enter_step s)))) = steps (schedule (fst s))"
    by (simp add: enter_step_eq)
  show ?thesis
    unfolding step_def
    by (rule makes_calls_none [OF e], rule makes_calls_append)
       (simp_all only: s1 [symmetric] setup_makes_calls body_makes_calls)
qed

text \<open>From line 162 on, when the step returns.\<close>

lemma step_split:
  "step d s =
     (case before_snapshot d s of
        (None, s1) \<Rightarrow> run_all [st_insert_agtbank d, st_commit d, st_schedule_step d, collect] s1
      | (Some e, s1) \<Rightarrow> (Some e, s1))"
proof -
  have "enter_step # first_step_setup d # step_body d
        = (enter_step # first_step_setup d
           # pipeline d @ [st_write_bank_ratios d, st_write_interbank_links d])
          @ [st_insert_agtbank d, st_commit d, st_schedule_step d, collect]"
    by (simp add: step_body_def)
  then show ?thesis
    unfolding step_def before_snapshot_def by (simp only: run_all_append)
qed

lemma snapshot_calls:
  assumes "fst (run_all [st_insert_agtbank d, st_commit d, st_schedule_step d, collect] s) = None"
  shows "\<exists>h. conn (fst s) = Some h
     \<and> trace (snd (snd (run_all [st_insert_agtbank d, st_commit d, st_schedule_step d,
                                  collect] s)))
         = trace (snd s)
           @ [Insert_agtbank_table (db_cursor (fst s)) (simid (fst s))
                (steps (schedule (fst s)))
                (map unique_id (filter is_Bank (agents (schedule (fst s))))),
              Conn_commit h, Schedule_step, Datacollector_collect]"
  using assms
  by (cases s)
     (auto simp: tail_defs record_call_def Let_def split: option.splits prod.splits)


text \<open>
  C6. The calls that a call of \<^verbatim>\<open>step()\<close> makes are, in this order: on a counter at 0
  the three calls of the set-up; then the eight stages of the pipeline, from
  \<^verbatim>\<open>main_evaluate_solvency\<close> to \<^verbatim>\<open>main_evaluate_liquidity\<close>; then the two writers; then
  \<^verbatim>\<open>insert_agtbank_table\<close>, \<^verbatim>\<open>conn.commit\<close>, \<^verbatim>\<open>schedule.step\<close> and
  \<^verbatim>\<open>datacollector.collect\<close>. A call that raises has made the first few of them, in
  that order; a call that returns has made them all, and its snapshot call was handed
  the run id, the step counter and exactly the Bank agents of the population that the
  stages and writers left.
\<close>

theorem step_makes_its_calls_in_order:
  "makes_calls (step d) s
     ((if steps (schedule (fst s)) = 0 then setup_names else []) @ body_names)
   \<and> (fst (step d s) = None \<longrightarrow>
        (\<exists>h. conn (fst (snd (before_snapshot d s))) = Some h
           \<and> trace (snd (snd (step d s)))
               = trace (snd (snd (before_snapshot d s)))
                 @ [Insert_agtbank_table (db_cursor (fst (snd (before_snapshot d s))))
                      (simid (fst (snd (before_snapshot d s))))
                      (steps (schedule (fst (snd (before_snapshot d s)))))
                      (map unique_id
                         (filter is_Bank (agents (schedule (fst (snd (before_snapshot d s))))))),
                    Conn_commit h, Schedule_step, Datacollector_collect]))"
proof (intro conjI impI)
  show "makes_calls (step d) s
     ((if steps (schedule (fst s)) = 0 then setup_names else []) @ body_names)"
    by (rule step_makes_calls)
next
  let ?s1 = "snd (before_snapshot d s)"
  let ?rest = "[st_insert_agtbank d, st_commit d, st_schedule_step d, collect]"
  assume ok: "fst (step d s) = None"
  then have 1: "fst (run_all ?rest ?s1) = None" and 2: "step d s = run_all ?rest ?s1"
    by (auto simp: step_split split: prod.splits option.splits simp del: run_all.simps)
  from snapshot_calls [OF 1] show "\<exists>h. conn (fst ?s1) = Some h
           \<and> trace (snd (snd (step d s)))
               = trace (snd ?s1)
                 @ [Insert_agtbank_table (db_cursor (fst ?s1)) (simid (fst ?s1))
                      (steps (schedule (fst ?s1)))
                      (map unique_id (filter is_Bank (agents (schedule (fst ?s1))))),
                    Conn_commit h, Schedule_step, Datacollector_collect]"
    unfolding 2 .
qed

theorem step_makes_its_calls_in_order_witness:
  "steps (schedule (fst start0)) = 0 \<and> fst (step env0 start0) = None
   \<and> map call_name (drop (length (trace (snd start0))) (trace (snd (snd (step env0 start0)))))
       = setup_names @ body_names
   \<and> (\<exists>h. trace (snd (snd (step env0 start0)))
               = trace (snd (snd (before_snapshot env0 start0)))
                 @ [Insert_agtbank_table (Some 1) (Some 20240517093000) 0 [1, 2],
                    Conn_commit h, Schedule_step, Datacollector_collect])"
proof -
  have h1: "steps (schedule (fst start0)) = 0" by code_simp
  have h2: "fst (step env0 start0) = None" by code_simp
  have v: "db_cursor (fst (snd (before_snapshot env0 start0))) = Some 1"
    "simid (fst (snd (before_snapshot env0 start0))) = Some 20240517093000"
    "steps (schedule (fst (snd (before_snapshot env0 start0)))) = 0"
    "map unique_id (filter is_Bank (agents (schedule (fst (snd (before_snapshot env0 start0))))))
       = [1, 2]"
    by code_simp+
  note t = step_makes_its_calls_in_order [of env0 start0]
  from t h1 h2 obtain cs where
    "trace (snd (snd (step env0 start0))) = trace (snd start0) @ cs"
    and "map call_name cs = setup_names @ body_names"
    by (auto simp: makes_calls_def)
  then have a: "map call_name (drop (length (trace (snd start0)))
                                    (trace (snd (snd (step env0 start0)))))
                  = setup_names @ body_names"
    by simp
  from t h2 have b: "\<exists>h. trace (snd (snd (step env0 start0)))
               = trace (snd (snd (before_snapshot env0 start0)))
                 @ [Insert_agtbank_table (Some 1) (Some 20240517093000) 0 [1, 2],
                    Conn_commit h, Schedule_step, Datacollector_collect]"
    unfolding v by blast
  from h1 h2 a b show ?thesis by blast
qed

subsection \<open>Placing agents\<close>

lemma for_each_fst:
  "fst (for_each body (x # xs) s) = None \<longleftrightarrow>
     fst (body x s) = None \<and> fst (for_each body xs (snd (body x s))) = None"
  by (auto split: prod.splits option.splits)

lemma for_each_snd:
  "fst (body x s) = None \<Longrightarrow>
     snd (for_each body (x # xs) s) = snd (for_each body xs (snd (body x s)))"
  by (auto split: prod.splits option.splits)

text \<open>An invariant indexed by the elements gone through, for a loop that returns.\<close>

lemma for_each_partial:
  assumes "I pre s" and "fst (for_each body xs s) = None"
    and step: "\<And>pre x s. I pre s \<Longrightarrow> fst (body x s) = None \<Longrightarrow> I (pre @ [x]) (snd (body x s))"
  shows "I (pre @ xs) (snd (for_each body xs s))"
  using assms(1,2)
proof (induction xs arbitrary: pre s)
  case Nil
  then show ?case by simp
next
  case (Cons x xs)
  from Cons.prems(2) have 1: "fst (body x s) = None"
    and 2: "fst (for_each body xs (snd (body x s))) = None"
    by (simp_all only: for_each_fst)
  from Cons.IH [OF step [OF Cons.prems(1) 1] 2] show ?case
    by (simp add: for_each_snd [of body x s, OF 1] del: for_each.simps)
qed

text \<open>A loop whose body cannot raise while \<open>P\<close> holds.\<close>

lemma for_each_succeeds:
  assumes "P s"
    and step: "\<And>x s. x \<in> set xs \<Longrightarrow> P s \<Longrightarrow> fst (body x s) = None \<and> P (snd (body x s))"
  shows "fst (for_each body xs s) = None \<and> P (snd (for_each body xs s))"
  using assms
proof (induction xs arbitrary: s)
  case Nil
  then show ?case by simp
next
  case (Cons x xs)
  from Cons.prems(2) [of x s] Cons.prems(1)
  have 1: "fst (body x s) = None" and 2: "P (snd (body x s))"
    by simp_all
  have "fst (for_each body xs (snd (body x s))) = None
        \<and> P (snd (for_each body xs (snd (body x s))))"
    by (rule Cons.IH [OF 2]) (simp add: Cons.prems(2))
  then show ?case
    by (simp add: for_each_fst for_each_snd [of body x s, OF 1] 1 del: for_each.simps)
qed

lemma set_pos_simps [simp]:
  "is_Bank (set_pos n a) = is_Bank a" "is_Saver (set_pos n a) = is_Saver a"
  "is_Loan (set_pos n a) = is_Loan a" "unique_id (set_pos n a) = unique_id a"
  "pos (set_pos n a) = Some n"
  by (cases a; simp)+

lemma map_of_place:
  "map_of (map (\<lambda>(k, ids). if k = n then (k, ids @ [u]) else (k, ids)) xs) j
     = map_option (\<lambda>ids. if j = n then ids @ [u] else ids) (map_of xs j)"
  by (induction xs) auto

lemma place_agent_Inr:
  assumes "place_agent a n g = Inr (a', g')"
  shows "n \<in> set (map fst (nodes g)) \<and> a' = set_pos n a
     \<and> map fst (nodes g') = map fst (nodes g) \<and> edges g' = edges g
     \<and> unique_id a \<in> set (node_agents g' n)
     \<and> (\<forall>j. set (node_agents g j) \<subseteq> set (node_agents g' j))"
proof -
  from assms have n: "n \<in> fst ` set (nodes g)"
    and a: "a' = set_pos n a"
    and g: "g' = g\<lparr>nodes := map (\<lambda>(k, ids). if k = n then (k, ids @ [unique_id a])
                                             else (k, ids)) (nodes g)\<rparr>"
    by (auto simp: place_agent_def split: if_splits)
  from n obtain ids where "map_of (nodes g) n = Some ids"
    by (metis map_of_eq_None_iff not_Some_eq)
  then have "unique_id a \<in> set (node_agents g' n)"
    by (simp add: g node_agents_def map_of_place)
  moreover have "set (node_agents g j) \<subseteq> set (node_agents g' j)" for j
    by (cases "map_of (nodes g) j") (auto simp: g node_agents_def map_of_place)
  moreover have "map fst (nodes g') = map fst (nodes g)"
    by (auto simp: g split_beta)
  ultimately show ?thesis
    using n a g by simp
qed

lemma place_agent_succeeds:
  "n \<in> set (map fst (nodes g)) \<Longrightarrow> \<exists>a' g'. place_agent a n g = Inr (a', g')"
  by (simp add: place_agent_def)

lemma random_choice_succeeds: "xs \<noteq> [] \<Longrightarrow> \<exists>x. random_choice r xs = Inr x \<and> x \<in> set xs"
  by (simp add: random_choice_def)

lemma random_choice_Nil: "random_choice r [] = Inl IndexError"
  by (simp add: random_choice_def)

subsection \<open>What the constructor builds\<close>

lemma built_add:
  assumes b: "built a b sv l m"
    and p: "place_agent x n (G m) = Inr (x', G m')"
    and ags: "agents (schedule m') = agents (schedule m) @ [x']"
    and par: "initial_bank m' = initial_bank m" "initial_saver m' = initial_saver m"
      "initial_loan m' = initial_loan m" "car m' = car m"
      "min_reserves_ratio m' = min_reserves_ratio m"
  shows "built a (if is_Bank x then Suc b else b) (if is_Saver x then Suc sv else sv)
           (if is_Loan x then Suc l else l) m'"
proof -
  let ?nb = "nat (arg_initial_bank a)"
  from place_agent_Inr [OF p] have n: "n \<in> set (map fst (nodes (G m)))"
    and x': "x' = set_pos n x"
    and keys: "map fst (nodes (G m')) = map fst (nodes (G m))"
    and ed: "edges (G m') = edges (G m)"
    and u: "unique_id x \<in> set (node_agents (G m') n)"
    and mono: "\<And>j. set (node_agents (G m) j) \<subseteq> set (node_agents (G m') j)"
    by auto
  from b have pl: "placed ?nb m" by (simp add: built_def)
  then have k: "map fst (nodes (G m)) = [0..<?nb]" by (simp add: placed_def)
  with n have nlt: "n < ?nb" by simp
  have "placed ?nb m'"
    unfolding placed_def
  proof (intro conjI ballI)
    show "map fst (nodes (G m')) = [0..<?nb]" using keys k by simp
    show "edges (G m') = []" using ed pl by (simp add: placed_def)
    fix y assume "y \<in> set (agents (schedule m'))"
    then consider "y \<in> set (agents (schedule m))" | "y = x'"
      using ags by auto
    then show "\<exists>j. pos y = Some j \<and> j < ?nb \<and> unique_id y \<in> set (node_agents (G m') j)"
    proof cases
      case 1
      with pl obtain j where "pos y = Some j" "j < ?nb"
        "unique_id y \<in> set (node_agents (G m) j)"
        by (auto simp: placed_def)
      with mono [of j] show ?thesis by auto
    next
      case 2
      with x' nlt u show ?thesis by simp
    qed
  qed
  with b par ags x' show ?thesis
    by (simp add: built_def)
qed

lemma banks_at_add:
  assumes "banks_at B m" and "agents (schedule m') = agents (schedule m) @ [x']"
  shows "banks_at B m'"
    and "is_Bank x' \<Longrightarrow> pos x' = Some n \<Longrightarrow> banks_at (insert n B) m'"
  using assms by (auto simp: banks_at_def)

lemma add_bank_built:
  assumes "built a b sv l (fst s)" and "banks_at B (fst s)" and "fst (add_bank d i s) = None"
  shows "built a (Suc b) sv l (fst (snd (add_bank d i s)))
     \<and> banks_at (insert i B) (fst (snd (add_bank d i s)))"
proof -
  obtain m w where s: "s = (m, w)" by (cases s)
  let ?m1 = "m\<lparr>current_id := Suc (current_id m)\<rparr>"
  obtain sb t x where nb: "Bank_new d (Suc (current_id m)) (rfree m) (car m) (initial_equity m)
                            = (sb, t, x)"
    by (cases "Bank_new d (Suc (current_id m)) (rfree m) (car m) (initial_equity m)")
  let ?bank = "Bank (Suc (current_id m)) None sb t x"
  from assms(3) obtain bank g where p: "place_agent ?bank i (G m) = Inr (bank, g)"
    by (auto simp: s add_bank_def nb Let_def split: sum.splits)
  let ?m' = "?m1\<lparr>G := g, schedule := schedule_add bank (schedule ?m1)\<rparr>"
  have r: "snd (add_bank d i s) = (?m', w)"
    by (simp add: s add_bank_def nb Let_def p)
  have bank: "bank = set_pos i ?bank"
    using place_agent_Inr [OF p] by simp
  have 1: "built a (if is_Bank ?bank then Suc b else b) (if is_Saver ?bank then Suc sv else sv)
             (if is_Loan ?bank then Suc l else l) ?m'"
    by (rule built_add [of a b sv l m _ i bank])
       (use assms(1) p in \<open>simp_all add: s schedule_add_def\<close>)
  have 2: "banks_at (insert i B) ?m'"
    by (rule banks_at_add(2) [of B m _ bank])
       (use assms(2) in \<open>simp_all add: s schedule_add_def bank\<close>)
  from 1 2 show ?thesis by (simp add: r)
qed

lemma add_saver_built:
  assumes "built a b sv l (fst s)" and "banks_at B (fst s)" and "fst (add_saver d i s) = None"
  shows "built a b (Suc sv) l (fst (snd (add_saver d i s)))
     \<and> banks_at B (fst (snd (add_saver d i s)))"
proof -
  obtain m w where s: "s = (m, w)" by (cases s)
  let ?m1 = "m\<lparr>current_id := Suc (current_id m)\<rparr>"
  let ?saver = "Saver (Suc (current_id m)) None (Saver_new d (Suc (current_id m)))"
  from assms(3) obtain n saver g where
    c: "random_choice (rand d (rng_draws w)) (map fst (nodes (G m))) = Inr n"
    and p: "place_agent ?saver n (G m) = Inr (saver, g)"
    by (auto simp: s add_saver_def Let_def split: sum.splits)
  let ?m' = "?m1\<lparr>G := g, schedule := schedule_add saver (schedule ?m1)\<rparr>"
  have r: "fst (snd (add_saver d i s)) = ?m'"
    by (simp add: s add_saver_def Let_def c p)
  have 1: "built a (if is_Bank ?saver then Suc b else b)
             (if is_Saver ?saver then Suc sv else sv)
             (if is_Loan ?saver then Suc l else l) ?m'"
    by (rule built_add [of a b sv l m _ n saver])
       (use assms(1) p in \<open>simp_all add: s schedule_add_def\<close>)
  have 2: "banks_at B ?m'"
    by (rule banks_at_add(1) [of B m _ saver])
       (use assms(2) in \<open>simp_all add: s schedule_add_def\<close>)
  from 1 2 show ?thesis by (simp add: r)
qed

lemma add_loan_built:
  assumes "built a b sv l (fst s)" and "banks_at B (fst s)" and "fst (add_loan d i s) = None"
  shows "built a b sv (Suc l) (fst (snd (add_loan d i s)))
     \<and> banks_at B (fst (snd (add_loan d i s)))"
proof -
  obtain m w where s: "s = (m, w)" by (cases s)
  let ?m1 = "m\<lparr>current_id := Suc (current_id m)\<rparr>"
  from assms(3) obtain n loan g where
    c: "random_choice (rand d (rng_draws w)) (map fst (nodes (G m))) = Inr n"
    and p: "place_agent (Loan (Suc (current_id m)) None (Some n)
                           (Loan_new d (Suc (current_id m)) (rfree m))) n (G m) = Inr (loan, g)"
    by (auto simp: s add_loan_def Let_def split: sum.splits)
  let ?loan = "Loan (Suc (current_id m)) None (Some n) (Loan_new d (Suc (current_id m)) (rfree m))"
  let ?m' = "?m1\<lparr>G := g, schedule := schedule_add loan (schedule ?m1)\<rparr>"
  have r: "fst (snd (add_loan d i s)) = ?m'"
    by (simp add: s add_loan_def Let_def c p)
  have 1: "built a (if is_Bank ?loan then Suc b else b)
             (if is_Saver ?loan then Suc sv else sv)
             (if is_Loan ?loan then Suc l else l) ?m'"
    by (rule built_add [of a b sv l m _ n loan])
       (use assms(1) p in \<open>simp_all add: s schedule_add_def\<close>)
  have 2: "banks_at B ?m'"
    by (rule banks_at_add(1) [of B m _ loan])
       (use assms(2) in \<open>simp_all add: s schedule_add_def\<close>)
  from 1 2 show ?thesis by (simp add: r)
qed

lemma new_model_built: "built a 0 0 0 (new_model a) \<and> banks_at {} (new_model a)"
  by (simp add: built_def placed_def banks_at_def new_model_def empty_graph_def comp_def)

lemma create_banks_built:
  assumes "built a 0 0 0 (fst s)" and "fst (create_banks d s) = None"
  shows "built a (nat (arg_initial_bank a)) 0 0 (fst (snd (create_banks d s)))
     \<and> banks_at {0..<nat (arg_initial_bank a)} (fst (snd (create_banks d s)))"
proof -
  let ?xs = "[0..<nat (arg_initial_bank a)]"
  let ?I = "\<lambda>(pre :: nat list) s. built a (length pre) 0 0 (fst s) \<and> banks_at (set pre) (fst s)"
  have eq: "create_banks d s = for_each (add_bank d) ?xs s"
    using assms(1) by (cases s) (simp add: create_banks_def built_def)
  have "?I ([] @ ?xs) (snd (for_each (add_bank d) ?xs s))"
  proof (rule for_each_partial [where I = ?I])
    show "?I [] s" using assms(1) by (simp add: banks_at_def)
    show "fst (for_each (add_bank d) ?xs s) = None" using assms(2) eq by simp
    fix pre x s
    assume "?I pre s" and "fst (add_bank d x s) = None"
    then show "?I (pre @ [x]) (snd (add_bank d x s))"
      using add_bank_built [of a "length pre" 0 0 s "set pre" d x] by simp
  qed
  then show ?thesis by (simp add: eq)
qed

lemma create_savers_built:
  assumes "built a b 0 0 (fst s)" and "banks_at B (fst s)" and "fst (create_savers d s) = None"
  shows "built a b (nat (arg_initial_saver a)) 0 (fst (snd (create_savers d s)))
     \<and> banks_at B (fst (snd (create_savers d s)))"
proof -
  let ?xs = "[0..<nat (arg_initial_saver a)]"
  let ?I = "\<lambda>(pre :: nat list) s. built a b (length pre) 0 (fst s) \<and> banks_at B (fst s)"
  have eq: "create_savers d s = for_each (add_saver d) ?xs s"
    using assms(1) by (cases s) (simp add: create_savers_def built_def)
  have "?I ([] @ ?xs) (snd (for_each (add_saver d) ?xs s))"
  proof (rule for_each_partial [where I = ?I])
    show "?I [] s" using assms(1,2) by simp
    show "fst (for_each (add_saver d) ?xs s) = None" using assms(3) eq by simp
    fix pre x s
    assume "?I pre s" and "fst (add_saver d x s) = None"
    then show "?I (pre @ [x]) (snd (add_saver d x s))"
      using add_saver_built [of a b "length pre" 0 s B d x] by simp
  qed
  then show ?thesis by (simp add: eq)
qed

lemma create_loans_built:
  assumes "built a b sv 0 (fst s)" and "banks_at B (fst s)" and "fst (create_loans d s) = None"
  shows "built a b sv (nat (arg_initial_loan a)) (fst (snd (create_loans d s)))
     \<and> banks_at B (fst (snd (create_loans d s)))"
proof -
  let ?xs = "[0..<nat (arg_initial_loan a)]"
  let ?I = "\<lambda>(pre :: nat list) s. built a b sv (length pre) (fst s) \<and> banks_at B (fst s)"
  have eq: "create_loans d s = for_each (add_loan d) ?xs s"
    using assms(1) by (cases s) (simp add: create_loans_def built_def)
  have "?I ([] @ ?xs) (snd (for_each (add_loan d) ?xs s))"
  proof (rule for_each_partial [where I = ?I])
    show "?I [] s" using assms(1,2) by simp
    show "fst (for_each (add_loan d) ?xs s) = None" using assms(3) eq by simp
    fix pre x s
    assume "?I pre s" and "fst (add_loan d x s) = None"
    then show "?I (pre @ [x]) (snd (add_loan d x s))"
      using add_loan_built [of a b sv "length pre" s B d x] by simp
  qed
  then show ?thesis by (simp add: eq)
qed

subsection \<open>The market initialisation keeps what was built\<close>

lemma count_by_placement:
  "length (filter is_Bank xs) = length (filter (\<lambda>p. fst p) (map placement xs))"
  "length (filter is_Saver xs) = length (filter (\<lambda>p. fst (snd p)) (map placement xs))"
  "length (filter is_Loan xs) = length (filter (\<lambda>p. fst (snd (snd p))) (map placement xs))"
  by (induction xs) (simp_all add: placement_def)

lemma same_placement_counts:
  assumes "map placement xs = map placement ys"
  shows "length (filter is_Bank xs) = length (filter is_Bank ys)"
    and "length (filter is_Saver xs) = length (filter is_Saver ys)"
    and "length (filter is_Loan xs) = length (filter is_Loan ys)"
  by (simp_all only: count_by_placement assms)

lemma same_placement_member:
  assumes "map placement xs = map placement ys" and "x \<in> set xs"
  shows "\<exists>y \<in> set ys. is_Bank y = is_Bank x \<and> unique_id y = unique_id x \<and> pos y = pos x"
proof -
  from assms(2) have "placement x \<in> set (map placement xs)" by simp
  then have "placement x \<in> set (map placement ys)" by (simp only: assms(1))
  then show ?thesis by (auto simp: placement_def)
qed

lemma stage_keeps_built:
  assumes b: "built a b sv l m" and k: "banks_at B m"
    and p: "map placement ags = map placement (agents (schedule m))"
  shows "built a b sv l (m\<lparr>schedule := (schedule m)\<lparr>agents := ags\<rparr>\<rparr>)"
    and "banks_at B (m\<lparr>schedule := (schedule m)\<lparr>agents := ags\<rparr>\<rparr>)"
proof -
  let ?nb = "nat (arg_initial_bank a)"
  let ?m' = "m\<lparr>schedule := (schedule m)\<lparr>agents := ags\<rparr>\<rparr>"
  from b have pl: "placed ?nb m" by (simp add: built_def)
  have "placed ?nb ?m'"
    unfolding placed_def
  proof (intro conjI ballI)
    show "map fst (nodes (G ?m')) = [0..<?nb]" "edges (G ?m') = []"
      using pl by (simp_all add: placed_def)
    fix x assume "x \<in> set (agents (schedule ?m'))"
    then have "x \<in> set ags" by simp
    from same_placement_member [OF p this] obtain y where
      y: "y \<in> set (agents (schedule m))" "unique_id y = unique_id x" "pos y = pos x"
      by auto
    from pl y(1) obtain n where
      "pos y = Some n" "n < ?nb" "unique_id y \<in> set (node_agents (G m) n)"
      unfolding placed_def by blast
    with y(2,3) show
      "\<exists>n. pos x = Some n \<and> n < ?nb \<and> unique_id x \<in> set (node_agents (G ?m') n)"
      by (intro exI [of _ n]) simp
  qed
  with b same_placement_counts [OF p] show "built a b sv l ?m'"
    by (simp add: built_def)
  show "banks_at B ?m'"
    unfolding banks_at_def
  proof
    fix i assume "i \<in> B"
    with k obtain y where y: "y \<in> set (agents (schedule m))" "is_Bank y" "pos y = Some i"
      by (auto simp: banks_at_def)
    from same_placement_member [OF p [symmetric] y(1)] y(2,3)
    show "\<exists>x \<in> set (agents (schedule ?m')). is_Bank x \<and> pos x = Some i"
      by auto
  qed
qed

lemma init_deposit_base_built:
  assumes "built a b sv l (fst s)" and "banks_at B (fst s)"
    and "keeps_population (initialize_deposit_base d)"
  shows "built a b sv l (fst (snd (init_deposit_base d s)))
     \<and> banks_at B (fst (snd (init_deposit_base d s)))"
proof -
  obtain m w where s: "s = (m, w)" by (cases s)
  let ?ags = "snd (initialize_deposit_base d (schedule m))"
  have p: "map placement ?ags = map placement (agents (schedule m))"
    using assms(3) by (simp add: keeps_population_def)
  have r: "fst (snd (init_deposit_base d (m, w)))
             = m\<lparr>schedule := (schedule m)\<lparr>agents := ?ags\<rparr>\<rparr>"
    by (simp add: init_deposit_base_def call_stage_def split_beta)
  from assms(1,2) have "built a b sv l m" "banks_at B m" by (simp_all add: s)
  from stage_keeps_built [OF this p] show ?thesis
    unfolding s r by simp
qed

lemma init_loan_book_built:
  assumes "built a b sv l (fst s)" and "banks_at B (fst s)"
    and "keeps_population (\<lambda>s. initialize_loan_book d s (arg_car a) (arg_min_reserves_ratio a))"
  shows "built a b sv l (fst (snd (init_loan_book d s)))
     \<and> banks_at B (fst (snd (init_loan_book d s)))"
proof -
  obtain m w where s: "s = (m, w)" by (cases s)
  from assms(1) have c: "car m = arg_car a" "min_reserves_ratio m = arg_min_reserves_ratio a"
    by (simp_all add: s built_def)
  let ?ags = "snd (initialize_loan_book d (schedule m) (arg_car a) (arg_min_reserves_ratio a))"
  have p: "map placement ?ags = map placement (agents (schedule m))"
    using assms(3) by (simp add: keeps_population_def)
  have r: "fst (snd (init_loan_book d (m, w)))
             = m\<lparr>schedule := (schedule m)\<lparr>agents := ?ags\<rparr>\<rparr>"
    by (simp add: init_loan_book_def call_stage_def split_beta c)
  from assms(1,2) have "built a b sv l m" "banks_at B m" by (simp_all add: s)
  from stage_keeps_built [OF this p] show ?thesis
    unfolding s r by simp
qed

lemma init_db_if_missing_model: "fst (snd (init_db_if_missing d s)) = fst s"
  by (cases s) (simp add: init_db_if_missing_def Let_def split: prod.splits option.splits)

lemma finish_built:
  assumes "built a b sv l (fst s)" and "banks_at B (fst s)"
  shows "built a b sv l (fst (snd (collect (snd (set_running s)))))
     \<and> banks_at B (fst (snd (collect (snd (set_running s)))))"
  using assms
  by (cases s) (simp add: set_running_def collect_def built_def placed_def banks_at_def)

lemma run_all_None_snd:
  "fst (run_all cs s) = None \<Longrightarrow> snd (run_all cs s) = fold (\<lambda>c s. snd (c s)) cs s"
  by (induction cs arbitrary: s) (auto split: prod.splits option.splits)

lemma run_all_None_Cons:
  "fst (run_all (c # cs) s) = None \<longleftrightarrow>
     fst (c s) = None \<and> fst (run_all cs (snd (c s))) = None"
  by (auto split: prod.splits option.splits)

text \<open>The whole constructor, when it returns.\<close>

lemma BankSim_init_built:
  assumes ok: "fst (BankSim_init d a w) = Inr m"
    and k1: "keeps_population (initialize_deposit_base d)"
    and k2: "keeps_population
               (\<lambda>s. initialize_loan_book d s (arg_car a) (arg_min_reserves_ratio a))"
  shows "built a (nat (arg_initial_bank a)) (nat (arg_initial_saver a))
           (nat (arg_initial_loan a)) m
     \<and> banks_at {0..<nat (arg_initial_bank a)} m"
proof -
  let ?s0 = "(new_model a, w) :: 'a model \<times> 'b world"
  let ?s1 = "snd (init_db_if_missing d ?s0)"
  let ?s2 = "snd (create_banks d ?s1)"
  let ?s3 = "snd (create_savers d ?s2)"
  let ?s4 = "snd (create_loans d ?s3)"
  let ?s5 = "snd (init_deposit_base d ?s4)"
  let ?s6 = "snd (init_loan_book d ?s5)"
  let ?nb = "nat (arg_initial_bank a)"
  from ok have run: "run_all [init_db_if_missing d, create_banks d, create_savers d,
      create_loans d, init_deposit_base d, init_loan_book d, set_running, collect] ?s0
      = (None, m, snd (BankSim_init d a w))"
    by (simp only: BankSim_init_result)
  then have n: "fst (run_all [init_db_if_missing d, create_banks d, create_savers d,
      create_loans d, init_deposit_base d, init_loan_book d, set_running, collect] ?s0) = None"
    by simp
  from n have n1: "fst (init_db_if_missing d ?s0) = None"
    and n2: "fst (create_banks d ?s1) = None"
    and n3: "fst (create_savers d ?s2) = None"
    and n4: "fst (create_loans d ?s3) = None"
    and n5: "fst (init_deposit_base d ?s4) = None"
    and n6: "fst (init_loan_book d ?s5) = None"
    by (simp_all only: run_all_None_Cons)
  from run have "snd (run_all [init_db_if_missing d, create_banks d, create_savers d,
      create_loans d, init_deposit_base d, init_loan_book d, set_running, collect] ?s0)
      = (m, snd (BankSim_init d a w))"
    by simp
  then have fin: "(m, snd (BankSim_init d a w)) = snd (collect (snd (set_running ?s6)))"
    unfolding run_all_None_snd [OF n] by simp
  have b1: "built a 0 0 0 (fst ?s1)"
    by (simp add: init_db_if_missing_model new_model_built)
  from create_banks_built [OF b1 n2]
  have b2: "built a ?nb 0 0 (fst ?s2)" and a2: "banks_at {0..<?nb} (fst ?s2)"
    by simp_all
  from create_savers_built [OF b2 a2 n3]
  have b3: "built a ?nb (nat (arg_initial_saver a)) 0 (fst ?s3)"
    and a3: "banks_at {0..<?nb} (fst ?s3)"
    by simp_all
  from create_loans_built [OF b3 a3 n4]
  have b4: "built a ?nb (nat (arg_initial_saver a)) (nat (arg_initial_loan a)) (fst ?s4)"
    and a4: "banks_at {0..<?nb} (fst ?s4)"
    by simp_all
  from init_deposit_base_built [OF b4 a4 k1]
  have b5: "built a ?nb (nat (arg_initial_saver a)) (nat (arg_initial_loan a)) (fst ?s5)"
    and a5: "banks_at {0..<?nb} (fst ?s5)"
    by simp_all
  from init_loan_book_built [OF b5 a5 k2]
  have b6: "built a ?nb (nat (arg_initial_saver a)) (nat (arg_initial_loan a)) (fst ?s6)"
    and a6: "banks_at {0..<?nb} (fst ?s6)"
    by simp_all
  from finish_built [OF b6 a6] fin [symmetric] show ?thesis
    by simp
qed

text \<open>
  C7. When the constructor returns a model, its graph has the nodes
  \<open>0, ..., initial_bank - 1\<close> and no edge, and its scheduler holds \<open>initial_bank\<close> Bank,
  \<open>initial_saver\<close> Saver and \<open>initial_loan\<close> Loan agents (for a count below 0, none),
  every Saver and Loan standing on a node of the graph, in the list of that node, on
  which a Bank stands too. The two stages of the market initialisation run inside the
  constructor and are not part of model.py: they are taken to keep the population.
\<close>

theorem constructed_population:
  assumes "fst (BankSim_init d a w) = Inr m"
    and "keeps_population (initialize_deposit_base d)"
    and "keeps_population
           (\<lambda>s. initialize_loan_book d s (arg_car a) (arg_min_reserves_ratio a))"
  shows "map fst (nodes (G m)) = [0..<nat (arg_initial_bank a)]
     \<and> length (nodes (G m)) = nat (arg_initial_bank a)
     \<and> edges (G m) = []
     \<and> length (filter is_Bank (agents (schedule m))) = nat (arg_initial_bank a)
     \<and> length (filter is_Saver (agents (schedule m))) = nat (arg_initial_saver a)
     \<and> length (filter is_Loan (agents (schedule m))) = nat (arg_initial_loan a)
     \<and> (\<forall>x \<in> set (agents (schedule m)). is_Saver x \<or> is_Loan x \<longrightarrow>
          (\<exists>n. pos x = Some n \<and> n < nat (arg_initial_bank a)
             \<and> unique_id x \<in> set (node_agents (G m) n)
             \<and> (\<exists>b \<in> set (agents (schedule m)). is_Bank b \<and> pos b = Some n)))"
proof -
  let ?nb = "nat (arg_initial_bank a)"
  from BankSim_init_built [OF assms]
  have b: "built a ?nb (nat (arg_initial_saver a)) (nat (arg_initial_loan a)) m"
    and k: "banks_at {0..<?nb} m"
    by simp_all
  from b have pl: "placed ?nb m" by (simp add: built_def)
  then have keys: "map fst (nodes (G m)) = [0..<?nb]" by (simp add: placed_def)
  from arg_cong [OF keys, of length] have len: "length (nodes (G m)) = ?nb" by simp
  have on_node: "\<exists>n. pos x = Some n \<and> n < ?nb \<and> unique_id x \<in> set (node_agents (G m) n)
             \<and> (\<exists>b \<in> set (agents (schedule m)). is_Bank b \<and> pos b = Some n)"
    if "x \<in> set (agents (schedule m))" for x
  proof -
    from pl that obtain n where n: "pos x = Some n" "n < ?nb"
      "unique_id x \<in> set (node_agents (G m) n)"
      unfolding placed_def by blast
    from k n(2) have "\<exists>b \<in> set (agents (schedule m)). is_Bank b \<and> pos b = Some n"
      by (simp add: banks_at_def)
    with n show ?thesis by blast
  qed
  from b pl keys len on_node show ?thesis
    by (simp add: built_def placed_def)
qed

lemma book_assets_placement: "placement (book_assets x) = placement x"
  by (cases x) (simp_all add: placement_def)

theorem constructed_population_witness:
  "fst (BankSim_init env_books_assets args0 world0) = Inr booked0
   \<and> keeps_population (initialize_deposit_base env_books_assets)
   \<and> keeps_population (\<lambda>s. initialize_loan_book env_books_assets s (arg_car args0)
                               (arg_min_reserves_ratio args0))
   \<and> map total_assets (filter is_Bank (agents (schedule booked0))) = [250, 250]
   \<and> map fst (nodes (G booked0)) = [0..<nat (arg_initial_bank args0)]
   \<and> edges (G booked0) = []
   \<and> length (filter is_Bank (agents (schedule booked0))) = nat (arg_initial_bank args0)
   \<and> length (filter is_Saver (agents (schedule booked0))) = nat (arg_initial_saver args0)
   \<and> length (filter is_Loan (agents (schedule booked0))) = nat (arg_initial_loan args0)
   \<and> nat (arg_initial_bank args0) = 2 \<and> nat (arg_initial_saver args0) = 2
   \<and> nat (arg_initial_loan args0) = 3"
proof -
  have h1: "fst (BankSim_init env_books_assets args0 world0) = Inr booked0"
    by code_simp
  have h2: "keeps_population (initialize_deposit_base env_books_assets)"
    by (simp add: keeps_population_def env_books_assets_def env0_def)
  have h3: "keeps_population (\<lambda>s. initialize_loan_book env_books_assets s (arg_car args0)
                               (arg_min_reserves_ratio args0))"
    by (simp add: keeps_population_def env_books_assets_def env0_def book_assets_placement)
  have v: "map total_assets (filter is_Bank (agents (schedule booked0))) = [250, 250]"
    by code_simp
  have n: "nat (arg_initial_bank args0) = 2" "nat (arg_initial_saver args0) = 2"
    "nat (arg_initial_loan args0) = 3"
    by (simp_all add: args0_def default_args_def)
  from constructed_population [OF h1 h2 h3] h1 h2 h3 v n show ?thesis
    by blast
qed

subsection \<open>Placement needs a node\<close>

text \<open>The graph and the three counts as the constructor set them.\<close>

lemma add_bank_succeeds:
  assumes "i \<in> set (map fst (nodes (G (fst s))))"
  shows "fst (add_bank d i s) = None
     \<and> map fst (nodes (G (fst (snd (add_bank d i s))))) = map fst (nodes (G (fst s)))
     \<and> initial_bank (fst (snd (add_bank d i s))) = initial_bank (fst s)
     \<and> initial_saver (fst (snd (add_bank d i s))) = initial_saver (fst s)
     \<and> initial_loan (fst (snd (add_bank d i s))) = initial_loan (fst s)"
proof -
  obtain m w where s: "s = (m, w)" by (cases s)
  obtain sb t x where nb: "Bank_new d (Suc (current_id m)) (rfree m) (car m) (initial_equity m)
                            = (sb, t, x)"
    by (cases "Bank_new d (Suc (current_id m)) (rfree m) (car m) (initial_equity m)")
  from assms place_agent_succeeds [of i "G m" "Bank (Suc (current_id m)) None sb t x"]
  obtain bank g where p: "place_agent (Bank (Suc (current_id m)) None sb t x) i (G m)
                            = Inr (bank, g)"
    by (auto simp: s)
  from place_agent_Inr [OF p] show ?thesis
    by (simp add: s add_bank_def nb Let_def p)
qed

lemma add_saver_succeeds:
  assumes "nodes (G (fst s)) \<noteq> []"
  shows "fst (add_saver d i s) = None
     \<and> map fst (nodes (G (fst (snd (add_saver d i s))))) = map fst (nodes (G (fst s)))
     \<and> initial_bank (fst (snd (add_saver d i s))) = initial_bank (fst s)
     \<and> initial_saver (fst (snd (add_saver d i s))) = initial_saver (fst s)
     \<and> initial_loan (fst (snd (add_saver d i s))) = initial_loan (fst s)"
proof -
  obtain m w where s: "s = (m, w)" by (cases s)
  from assms have "map fst (nodes (G m)) \<noteq> []" by (simp add: s)
  from random_choice_succeeds [OF this, of "rand d (rng_draws w)"] obtain n where
    c: "random_choice (rand d (rng_draws w)) (map fst (nodes (G m))) = Inr n"
    and n: "n \<in> set (map fst (nodes (G m)))"
    by auto
  from place_agent_succeeds [OF n, of "Saver (Suc (current_id m)) None
                                         (Saver_new d (Suc (current_id m)))"]
  obtain saver g where
    p: "place_agent (Saver (Suc (current_id m)) None (Saver_new d (Suc (current_id m))))
          n (G m) = Inr (saver, g)"
    by auto
  from place_agent_Inr [OF p] show ?thesis
    by (simp add: s add_saver_def Let_def c p)
qed

lemma add_loan_succeeds:
  assumes "nodes (G (fst s)) \<noteq> []"
  shows "fst (add_loan d i s) = None
     \<and> map fst (nodes (G (fst (snd (add_loan d i s))))) = map fst (nodes (G (fst s)))
     \<and> initial_bank (fst (snd (add_loan d i s))) = initial_bank (fst s)
     \<and> initial_saver (fst (snd (add_loan d i s))) = initial_saver (fst s)
     \<and> initial_loan (fst (snd (add_loan d i s))) = initial_loan (fst s)"
proof -
  obtain m w where s: "s = (m, w)" by (cases s)
  from assms have "map fst (nodes (G m)) \<noteq> []" by (simp add: s)
  from random_choice_succeeds [OF this, of "rand d (rng_draws w)"] obtain n where
    c: "random_choice (rand d (rng_draws w)) (map fst (nodes (G m))) = Inr n"
    and n: "n \<in> set (map fst (nodes (G m)))"
    by auto
  from place_agent_succeeds [OF n, of "Loan (Suc (current_id m)) None (Some n)
                                         (Loan_new d (Suc (current_id m)) (rfree m))"]
  obtain loan g where
    p: "place_agent (Loan (Suc (current_id m)) None (Some n)
                       (Loan_new d (Suc (current_id m)) (rfree m))) n (G m) = Inr (loan, g)"
    by auto
  from place_agent_Inr [OF p] show ?thesis
    by (simp add: s add_loan_def Let_def c p)
qed

lemma create_banks_succeeds:
  assumes "map fst (nodes (G (fst s))) = [0..<nat (initial_bank (fst s))]"
  shows "fst (create_banks d s) = None
     \<and> map fst (nodes (G (fst (snd (create_banks d s))))) = map fst (nodes (G (fst s)))
     \<and> initial_bank (fst (snd (create_banks d s))) = initial_bank (fst s)
     \<and> initial_saver (fst (snd (create_banks d s))) = initial_saver (fst s)
     \<and> initial_loan (fst (snd (create_banks d s))) = initial_loan (fst s)"
proof -
  let ?xs = "[0..<nat (initial_bank (fst s))]"
  let ?P = "\<lambda>t :: 'a model \<times> 'b world.
     map fst (nodes (G (fst t))) = map fst (nodes (G (fst s)))
     \<and> initial_bank (fst t) = initial_bank (fst s)
     \<and> initial_saver (fst t) = initial_saver (fst s)
     \<and> initial_loan (fst t) = initial_loan (fst s)"
  have "fst (for_each (add_bank d) ?xs s) = None \<and> ?P (snd (for_each (add_bank d) ?xs s))"
  proof (rule for_each_succeeds [where P = ?P])
    show "?P s" by simp
    fix x t assume "x \<in> set ?xs" and "?P t"
    then show "fst (add_bank d x t) = None \<and> ?P (snd (add_bank d x t))"
      using add_bank_succeeds [of x t d] assms by simp
  qed
  then show ?thesis by (cases s) (simp add: create_banks_def)
qed

lemma create_savers_succeeds:
  assumes "nodes (G (fst s)) \<noteq> []"
  shows "fst (create_savers d s) = None
     \<and> map fst (nodes (G (fst (snd (create_savers d s))))) = map fst (nodes (G (fst s)))
     \<and> initial_bank (fst (snd (create_savers d s))) = initial_bank (fst s)
     \<and> initial_saver (fst (snd (create_savers d s))) = initial_saver (fst s)
     \<and> initial_loan (fst (snd (create_savers d s))) = initial_loan (fst s)"
proof -
  let ?xs = "[0..<nat (initial_saver (fst s))]"
  let ?P = "\<lambda>t :: 'a model \<times> 'b world.
     map fst (nodes (G (fst t))) = map fst (nodes (G (fst s)))
     \<and> initial_bank (fst t) = initial_bank (fst s)
     \<and> initial_saver (fst t) = initial_saver (fst s)
     \<and> initial_loan (fst t) = initial_loan (fst s)"
  have "fst (for_each (add_saver d) ?xs s) = None \<and> ?P (snd (for_each (add_saver d) ?xs s))"
  proof (rule for_each_succeeds [where P = ?P])
    show "?P s" by simp
    fix x t assume "x \<in> set ?xs" and p: "?P t"
    with assms have "nodes (G (fst t)) \<noteq> []"
      by (metis map_is_Nil_conv)
    from add_saver_succeeds [OF this, of d x] p
    show "fst (add_saver d x t) = None \<and> ?P (snd (add_saver d x t))"
      by simp
  qed
  then show ?thesis by (cases s) (simp add: create_savers_def)
qed

lemma create_loans_succeeds:
  assumes "nodes (G (fst s)) \<noteq> []"
  shows "fst (create_loans d s) = None
     \<and> map fst (nodes (G (fst (snd (create_loans d s))))) = map fst (nodes (G (fst s)))
     \<and> initial_bank (fst (snd (create_loans d s))) = initial_bank (fst s)
     \<and> initial_saver (fst (snd (create_loans d s))) = initial_saver (fst s)
     \<and> initial_loan (fst (snd (create_loans d s))) = initial_loan (fst s)"
proof -
  let ?xs = "[0..<nat (initial_loan (fst s))]"
  let ?P = "\<lambda>t :: 'a model \<times> 'b world.
     map fst (nodes (G (fst t))) = map fst (nodes (G (fst s)))
     \<and> initial_bank (fst t) = initial_bank (fst s)
     \<and> initial_saver (fst t) = initial_saver (fst s)
     \<and> initial_loan (fst t) = initial_loan (fst s)"
  have "fst (for_each (add_loan d) ?xs s) = None \<and> ?P (snd (for_each (add_loan d) ?xs s))"
  proof (rule for_each_succeeds [where P = ?P])
    show "?P s" by simp
    fix x t assume "x \<in> set ?xs" and p: "?P t"
    with assms have "nodes (G (fst t)) \<noteq> []"
      by (metis map_is_Nil_conv)
    from add_loan_succeeds [OF this, of d x] p
    show "fst (add_loan d x t) = None \<and> ?P (snd (add_loan d x t))"
      by simp
  qed
  then show ?thesis by (cases s) (simp add: create_loans_def)
qed

text \<open>With a bank, the three loops of the constructor return.\<close>

lemma placements_succeed:
  assumes "1 \<le> initial_bank (fst s)"
    and "map fst (nodes (G (fst s))) = [0..<nat (initial_bank (fst s))]"
  shows "fst (run_all [create_banks d, create_savers d, create_loans d] s) = None"
proof -
  let ?s2 = "snd (create_banks d s)"
  let ?s3 = "snd (create_savers d ?s2)"
  from assms have ne: "map fst (nodes (G (fst s))) \<noteq> []" by simp
  note b = create_banks_succeeds [OF assms(2), of d]
  from b ne have ne2: "nodes (G (fst ?s2)) \<noteq> []" by (metis map_is_Nil_conv)
  note sv = create_savers_succeeds [OF ne2, of d]
  from sv ne2 have ne3: "nodes (G (fst ?s3)) \<noteq> []" by (metis map_is_Nil_conv)
  note l = create_loans_succeeds [OF ne3, of d]
  from b sv l show ?thesis
    by (simp add: run_all_None_Cons del: run_all.simps(2))
qed

text \<open>Without a node, the first Saver or Loan cannot be placed.\<close>

lemma placements_fail:
  assumes "nodes (G (fst s)) = []" and "initial_bank (fst s) = 0"
    and "0 < initial_saver (fst s) \<or> 0 < initial_loan (fst s)"
  shows "fst (run_all [create_banks d, create_savers d, create_loans d] s) = Some IndexError"
proof -
  obtain m w where s: "s = (m, w)" by (cases s)
  from assms(1,2) have g: "nodes (G m) = []" and b: "initial_bank m = 0" by (simp_all add: s)
  have cb: "create_banks d (m, w) = (None, (m, w))"
    by (simp add: create_banks_def b)
  show ?thesis
  proof (cases "0 < initial_saver m")
    case True
    then have "[0..<nat (initial_saver m)] = 0 # [1..<nat (initial_saver m)]"
      by (simp add: upt_conv_Cons)
    then have "fst (create_savers d (m, w)) = Some IndexError"
      by (simp add: create_savers_def add_saver_def g random_choice_Nil Let_def
               del: upt.simps)
    then show ?thesis
      by (simp add: s cb run_all_Cons_fst del: run_all.simps(2))
  next
    case False
    with assms(3) have l: "0 < initial_loan m" by (simp add: s)
    from False have cs: "create_savers d (m, w) = (None, (m, w))"
      by (simp add: create_savers_def)
    from l have "[0..<nat (initial_loan m)] = 0 # [1..<nat (initial_loan m)]"
      by (simp add: upt_conv_Cons)
    then have "fst (create_loans d (m, w)) = Some IndexError"
      by (simp add: create_loans_def add_loan_def g random_choice_Nil Let_def
               del: upt.simps)
    then show ?thesis
      by (simp add: s cb cs run_all_Cons_fst del: run_all.simps(2))
  qed
qed


lemma BankSim_init_fst:
  "fst (BankSim_init d a w) =
     (case fst (run_all [init_db_if_missing d, create_banks d, create_savers d,
                         create_loans d, init_deposit_base d, init_loan_book d,
                         set_running, collect] (new_model a, w)) of
        None \<Rightarrow> Inr (fst (snd (run_all [init_db_if_missing d, create_banks d,
                                         create_savers d, create_loans d,
                                         init_deposit_base d, init_loan_book d,
                                         set_running, collect] (new_model a, w))))
      | Some e \<Rightarrow> Inl e)"
  by (auto simp: BankSim_init_def split: prod.splits option.splits simp del: run_all.simps)

lemma run_all_raises_in:
  "fst (run_all as s) = Some e \<Longrightarrow> fst (run_all (as @ bs) s) = Some e"
  by (simp add: run_all_append_fst)

lemma new_model_graph:
  "map fst (nodes (G (new_model a))) = [0..<nat (arg_initial_bank a)]"
  "initial_bank (new_model a) = arg_initial_bank a"
  "initial_saver (new_model a) = arg_initial_saver a"
  "initial_loan (new_model a) = arg_initial_loan a"
  by (simp_all add: new_model_def empty_graph_def comp_def)

text \<open>
  C10. With \<^verbatim>\<open>initial_bank = 0\<close> and a Saver or a Loan to place, the constructor
  raises: the \<^verbatim>\<open>IndexError\<close> of \<^verbatim>\<open>random.choice\<close> on the empty list of nodes, unless
  the database initialisation has raised before. With \<^verbatim>\<open>initial_bank >= 1\<close> the three
  loops that create and place the agents return, whatever the random numbers drawn; and
  the constructor returns a model when the database initialisation and the two stages of
  the market initialisation do not raise.
\<close>

theorem placement_needs_a_bank:
  "(arg_initial_bank a = 0 \<and> (0 < arg_initial_saver a \<or> 0 < arg_initial_loan a) \<longrightarrow>
      (\<exists>e. fst (BankSim_init d a w) = Inl e)
      \<and> (fst (init_db_if_missing d (new_model a, w)) = None \<longrightarrow>
           fst (BankSim_init d a w) = Inl IndexError))
   \<and> (1 \<le> arg_initial_bank a \<longrightarrow>
        fst (run_all [create_banks d, create_savers d, create_loans d] (new_model a, w)) = None
        \<and> (fst (init_db_if_missing d (new_model a, w)) = None
             \<and> (\<forall>s. fst (initialize_deposit_base d s) = None)
             \<and> (\<forall>s c r. fst (initialize_loan_book d s c r) = None) \<longrightarrow>
           (\<exists>m. fst (BankSim_init d a w) = Inr m)))"
proof (intro conjI impI)
  let ?s0 = "(new_model a, w) :: 'a model \<times> 'b world"
  let ?s1 = "snd (init_db_if_missing d ?s0)"
  let ?loops = "[create_banks d, create_savers d, create_loans d]"
  let ?rest = "[init_deposit_base d, init_loan_book d, set_running, collect]"
  assume a: "arg_initial_bank a = 0 \<and> (0 < arg_initial_saver a \<or> 0 < arg_initial_loan a)"
  have m1: "fst ?s1 = new_model a" by (simp add: init_db_if_missing_model)
  have "fst (run_all ?loops ?s1) = Some IndexError"
    by (rule placements_fail; unfold m1)
       (use a in \<open>simp_all add: new_model_def empty_graph_def\<close>)
  then have "fst (run_all (?loops @ ?rest) ?s1) = Some IndexError"
    by (rule run_all_raises_in)
  then have f: "fst (init_db_if_missing d ?s0) = None \<Longrightarrow>
      fst (run_all (init_db_if_missing d # ?loops @ ?rest) ?s0) = Some IndexError"
    by (simp add: run_all_Cons_fst del: run_all.simps)
  have g: "fst (init_db_if_missing d ?s0) = Some e \<Longrightarrow>
      fst (run_all (init_db_if_missing d # ?loops @ ?rest) ?s0) = Some e" for e
    by (simp add: run_all_Cons_fst del: run_all.simps)
  show "\<exists>e. fst (BankSim_init d a w) = Inl e"
    using f g by (cases "fst (init_db_if_missing d ?s0)") (simp_all add: BankSim_init_fst)
  assume "fst (init_db_if_missing d ?s0) = None"
  from f [OF this] show "fst (BankSim_init d a w) = Inl IndexError"
    by (simp add: BankSim_init_fst)
next
  assume b: "1 \<le> arg_initial_bank a"
  show "fst (run_all [create_banks d, create_savers d, create_loans d] (new_model a, w)) = None"
    by (rule placements_succeed) (use b in \<open>simp_all add: new_model_graph\<close>)
next
  let ?s0 = "(new_model a, w) :: 'a model \<times> 'b world"
  let ?s1 = "snd (init_db_if_missing d ?s0)"
  let ?loops = "[create_banks d, create_savers d, create_loans d]"
  let ?rest = "[init_deposit_base d, init_loan_book d, set_running, collect]"
  assume b: "1 \<le> arg_initial_bank a"
  assume h: "fst (init_db_if_missing d ?s0) = None
             \<and> (\<forall>s. fst (initialize_deposit_base d s) = None)
             \<and> (\<forall>s c r. fst (initialize_loan_book d s c r) = None)"
  have m1: "fst ?s1 = new_model a" by (simp add: init_db_if_missing_model)
  have l: "fst (run_all ?loops ?s1) = None"
    by (rule placements_succeed; unfold m1) (use b in \<open>simp_all add: new_model_graph\<close>)
  have r: "fst (run_all ?rest t) = None" for t
    using h
    by (cases t)
       (simp add: init_deposit_base_def init_loan_book_def call_stage_def set_running_def
                  collect_def split_beta)
  have "fst (run_all (?loops @ ?rest) ?s1) = None"
    by (simp only: run_all_append_fst l r) simp
  with h have "fst (run_all (init_db_if_missing d # ?loops @ ?rest) ?s0) = None"
    by (simp only: run_all_Cons_fst) simp
  then show "\<exists>m. fst (BankSim_init d a w) = Inr m"
    by (simp add: BankSim_init_fst)
qed

theorem placement_needs_a_bank_witness:
  "arg_initial_bank args_no_bank = 0 \<and> 0 < arg_initial_saver args_no_bank
   \<and> fst (init_db_if_missing env0 (new_model args_no_bank, world0)) = None
   \<and> fst (BankSim_init env0 args_no_bank world0) = Inl IndexError
   \<and> 1 \<le> arg_initial_bank args0
   \<and> fst (init_db_if_missing env0 (new_model args0, world0)) = None
   \<and> fst (run_all [create_banks env0, create_savers env0, create_loans env0]
             (new_model args0, world0)) = None
   \<and> (\<exists>m. fst (BankSim_init env0 args0 world0) = Inr m)"
proof -
  have h1: "arg_initial_bank args_no_bank = 0" "0 < arg_initial_saver args_no_bank"
    "1 \<le> arg_initial_bank args0"
    by (simp_all add: args_no_bank_def args0_def default_args_def)
  have h2: "fst (init_db_if_missing env0 (new_model args_no_bank, world0)) = None"
    "fst (init_db_if_missing env0 (new_model args0, world0)) = None"
    by code_simp+
  have h3: "\<forall>s. fst (initialize_deposit_base env0 s) = None"
    "\<forall>s c r. fst (initialize_loan_book env0 s c r) = None"
    by (simp_all add: env0_def)
  from placement_needs_a_bank [of args_no_bank env0 world0] h1 h2
  have a: "fst (BankSim_init env0 args_no_bank world0) = Inl IndexError"
    by blast
  from placement_needs_a_bank [of args0 env0 world0] h1 h2 h3
  have b: "fst (run_all [create_banks env0, create_savers env0, create_loans env0]
             (new_model args0, world0)) = None"
    and c: "\<exists>m. fst (BankSim_init env0 args0 world0) = Inr m"
    by blast+
  from h1 h2 a b c show ?thesis by blast
qed

end
